theory Spec2Isabelle
  imports Complex_Main "HOL-Library.Word" "HOL-Library.Sublist"
begin

unbundle bit_operations_syntax

section \<open>The model\<close>

subsection \<open>Conversions and arithmetic of C\<close>

text \<open>Conversion to \<^verbatim>\<open>size_t\<close> (64 bits, unsigned) and to \<^verbatim>\<open>int\<close> (32 bits, signed).\<close>

definition size_t_of :: "int \<Rightarrow> int" where
  "size_t_of x = x mod 2 ^ 64"

definition int_of :: "int \<Rightarrow> int" where
  "int_of x = (x + 2 ^ 31) mod 2 ^ 32 - 2 ^ 31"

text \<open>
  The arithmetic of the C type \<^verbatim>\<open>double\<close> is the machine's, not the program's: it is a
  parameter of the model, a record of the operations that the parser applies to
  \<^verbatim>\<open>double\<close> values, over a type \<open>'d\<close> of such values. Nothing is assumed of the
  operations: what is proved for every such record holds for the arithmetic of the
  machine, with its rounding, its infinities and its NaN.
\<close>

record 'd double_arith =
  d_zero :: 'd                         \<comment> \<open>the value whose bytes are all zero, \<^verbatim>\<open>0.0\<close>\<close>
  d_MiB :: 'd                          \<comment> \<open>the literal \<^verbatim>\<open>1048576.0\<close>\<close>
  d_add :: "'d \<Rightarrow> 'd \<Rightarrow> 'd"              \<comment> \<open>\<^verbatim>\<open>a + b\<close>\<close>
  d_div :: "'d \<Rightarrow> 'd \<Rightarrow> 'd"              \<comment> \<open>\<^verbatim>\<open>a / b\<close>\<close>
  d_gt :: "'d \<Rightarrow> 'd \<Rightarrow> bool"             \<comment> \<open>\<^verbatim>\<open>a > b\<close>\<close>
  d_true :: "'d \<Rightarrow> bool"                 \<comment> \<open>\<^verbatim>\<open>if (a)\<close>: \<open>a\<close> does not compare equal to zero\<close>
  d_of_int64 :: "64 word \<Rightarrow> 'd"         \<comment> \<open>\<^verbatim>\<open>(double)x\<close> for an \<^verbatim>\<open>int64_t\<close>\<close>

text \<open>
  The arithmetic of the examples: the values are reals and the operations are exact.
  The examples use small integers only, whose sums the machine computes exactly as
  well.
\<close>

definition exact_arith :: "real double_arith" where
  "exact_arith = \<lparr>d_zero = 0, d_MiB = 1048576, d_add = (\<lambda>a b. a + b),
     d_div = (\<lambda>a b. a / b), d_gt = (\<lambda>a b. a > b), d_true = (\<lambda>a. a \<noteq> 0),
     d_of_int64 = (\<lambda>x. real_of_int (sint x))\<rparr>"

text \<open>
  A property of the machine's addition that one statement below needs: the sum of two
  values that compare equal to zero compares equal to zero.
\<close>

definition zero_sum :: "'d double_arith \<Rightarrow> bool" where
  "zero_sum ops \<longleftrightarrow> (\<forall>a b. \<not> d_true ops a \<and> \<not> d_true ops b \<longrightarrow> \<not> d_true ops (d_add ops a b))"

subsection \<open>darshan-parser: data model\<close>

text \<open>
  The parser of \<^verbatim>\<open>darshan-util/darshan-parser.c\<close>. The \<^verbatim>\<open>int64_t\<close> byte counters
  are machine words, whose addition wraps; ranks, process counts and \<open>nprocs\<close>
  are integers (no arithmetic is done on ranks, and the process counts stay far below
  \<open>2 ^ 63\<close>); the bit sets (\<^verbatim>\<open>type\<close>, the option mask) are machine words.
\<close>

datatype fault =
    OutOfBounds int     \<comment> \<open>an array is indexed outside its allocation (undefined in C)\<close>
  | IncompleteData      \<comment> \<open>\<^verbatim>\<open>return(-1)\<close> of \<^verbatim>\<open>main\<close> on a partial module\<close>
  | UsageExit           \<comment> \<open>\<^verbatim>\<open>usage()\<close>, which calls \<^verbatim>\<open>exit(1)\<close>\<close>
  | NullPointer         \<comment> \<open>a \<^verbatim>\<open>NULL\<close> pointer is dereferenced\<close>
  | IndeterminateReturn \<comment> \<open>the value of a \<^verbatim>\<open>return;\<close> without expression is used\<close>
  | AssertFailed        \<comment> \<open>an \<^verbatim>\<open>assert\<close> fails\<close>

definition OPTION_BASE :: "32 word" where "OPTION_BASE = push_bit 0 1"

definition OPTION_TOTAL :: "32 word" where "OPTION_TOTAL = push_bit 1 1"

definition OPTION_PERF :: "32 word" where "OPTION_PERF = push_bit 2 1"

definition OPTION_FILE :: "32 word" where "OPTION_FILE = push_bit 3 1"

definition OPTION_SHOW_INCOMPLETE :: "32 word" where "OPTION_SHOW_INCOMPLETE = push_bit 7 1"

definition OPTION_ALL :: "32 word" where
  "OPTION_ALL = OPTION_BASE OR OPTION_TOTAL OR OPTION_PERF OR OPTION_FILE OR OPTION_SHOW_INCOMPLETE"

definition FILETYPE_SHARED :: "64 word" where "FILETYPE_SHARED = push_bit 0 1"

definition FILETYPE_UNIQUE :: "64 word" where "FILETYPE_UNIQUE = push_bit 1 1"

definition FILETYPE_PARTSHARED :: "64 word" where "FILETYPE_PARTSHARED = push_bit 2 1"

text \<open>The macro \<^verbatim>\<open>max(a,b) (((a) > (b)) ? (a) : (b))\<close>.\<close>

definition max_c :: "'d double_arith \<Rightarrow> 'd \<Rightarrow> 'd \<Rightarrow> 'd" where
  "max_c ops a b = (if d_gt ops a b then a else b)"

text \<open>
  A module record as the parser reads it: the base record and the counters that
  \<^verbatim>\<open>*_accum_file\<close> and \<^verbatim>\<open>*_accum_perf\<close> use. The three record structs
  (\<^verbatim>\<open>darshan_posix_file\<close>, \<^verbatim>\<open>darshan_mpiio_file\<close>, \<^verbatim>\<open>darshan_stdio_file\<close>) are
  declared outside this file; the parser reads the same eight fields of each, under the
  counter names \<^verbatim>\<open>POSIX_BYTES_READ\<close>, \<^verbatim>\<open>MPIIO_BYTES_READ\<close>, \<^verbatim>\<open>STDIO_BYTES_READ\<close> and so on.
\<close>

record 'd mod_file =
  base_rec_id :: "64 word"
  base_rec_rank :: int
  BYTES_READ :: "64 word"
  BYTES_WRITTEN :: "64 word"
  F_META_TIME :: 'd
  F_READ_TIME :: 'd
  F_WRITE_TIME :: 'd
  F_SLOWEST_RANK_TIME :: 'd

text \<open>The record that \<^verbatim>\<open>memset(hfile->rec_dat, 0, ...)\<close> leaves.\<close>

definition zero_file :: "'d double_arith \<Rightarrow> 'd mod_file" where
  "zero_file ops = \<lparr>base_rec_id = 0, base_rec_rank = 0, BYTES_READ = 0, BYTES_WRITTEN = 0,
     F_META_TIME = d_zero ops, F_READ_TIME = d_zero ops, F_WRITE_TIME = d_zero ops,
     F_SLOWEST_RANK_TIME = d_zero ops\<rparr>"

text \<open>
  \<^verbatim>\<open>log_agg_records(src, dst, init_flag)\<close> of the module's log utilities is not part of
  this file: it is a parameter, a function from the source record, the accumulated
  record and the flag to the new accumulated record.
\<close>

type_synonym 'd agg_fn = "'d mod_file \<Rightarrow> 'd mod_file \<Rightarrow> bool \<Rightarrow> 'd mod_file"

text \<open>
  An instance of the parameter for the examples: an aggregator that adds the bytes and
  the times of the source record to the accumulated record.
\<close>

definition example_agg :: "'d double_arith \<Rightarrow> 'd agg_fn" where
  "example_agg ops src dst init_flag =
     dst\<lparr>BYTES_READ := BYTES_READ dst + BYTES_READ src,
         BYTES_WRITTEN := BYTES_WRITTEN dst + BYTES_WRITTEN src,
         F_META_TIME := d_add ops (F_META_TIME dst) (F_META_TIME src),
         F_READ_TIME := d_add ops (F_READ_TIME dst) (F_READ_TIME src),
         F_WRITE_TIME := d_add ops (F_WRITE_TIME dst) (F_WRITE_TIME src)\<rparr>"

record 'd hash_entry =
  rec_id :: "64 word"
  type :: "64 word"
  procs :: int
  rec_dat :: "'d mod_file option"
  cumul_io_total_time :: 'd
  slowest_io_total_time :: 'd

record 'd perf_data =
  total_bytes :: "64 word"
  slowest_rank_io_total_time :: 'd
  slowest_rank_rw_only_time :: 'd
  slowest_rank_meta_only_time :: 'd
  slowest_rank_rank :: int
  shared_io_total_time_by_slowest :: 'd
  agg_perf_by_slowest :: 'd
  agg_time_by_slowest :: 'd
  rank_cumul_io_total_time :: "'d list"
  rank_cumul_rw_only_time :: "'d list"
  rank_cumul_md_only_time :: "'d list"

text \<open>
  The sum \<^verbatim>\<open>F_META_TIME + F_READ_TIME + F_WRITE_TIME\<close> that both folds add, and the sum
  \<^verbatim>\<open>F_READ_TIME + F_WRITE_TIME\<close>: additions from left to right.
\<close>

definition io_time :: "'d double_arith \<Rightarrow> 'd mod_file \<Rightarrow> 'd" where
  "io_time ops pfile = d_add ops (d_add ops (F_META_TIME pfile) (F_READ_TIME pfile)) (F_WRITE_TIME pfile)"

definition rw_time :: "'d double_arith \<Rightarrow> 'd mod_file \<Rightarrow> 'd" where
  "rw_time ops pfile = d_add ops (F_READ_TIME pfile) (F_WRITE_TIME pfile)"

subsection \<open>Per-file accumulation\<close>

definition posix_accum_file ::
  "'d double_arith \<Rightarrow> 'd agg_fn \<Rightarrow> 'd mod_file \<Rightarrow> 'd hash_entry \<Rightarrow> int \<Rightarrow> 'd hash_entry" where
  "posix_accum_file ops agg pfile hfile nprocs =
    (let h1 = hfile\<lparr>procs := procs hfile + 1\<rparr>;
         h2 = (if base_rec_rank pfile = -1
               then h1\<lparr>slowest_io_total_time := F_SLOWEST_RANK_TIME pfile\<rparr>
               else h1\<lparr>slowest_io_total_time :=
                      max_c ops (slowest_io_total_time h1)
                        (d_add ops (d_add ops (F_META_TIME pfile) (F_READ_TIME pfile))
                           (F_WRITE_TIME pfile))\<rparr>);
         h3 = (if base_rec_rank pfile = -1
               then h2\<lparr>procs := nprocs, type := type h2 OR FILETYPE_SHARED\<rparr>
               else if procs h2 > 1
               then h2\<lparr>type := (type h2 AND NOT FILETYPE_UNIQUE) OR FILETYPE_PARTSHARED\<rparr>
               else h2\<lparr>type := type h2 OR FILETYPE_UNIQUE\<rparr>);
         h4 = h3\<lparr>cumul_io_total_time := d_add ops (cumul_io_total_time h3)
                 (d_add ops (d_add ops (F_META_TIME pfile) (F_READ_TIME pfile))
                    (F_WRITE_TIME pfile))\<rparr>
     in (case rec_dat h4 of
           None \<Rightarrow> h4\<lparr>rec_dat := Some (agg pfile (zero_file ops) True)\<rparr>
         | Some tmp \<Rightarrow> h4\<lparr>rec_dat := Some (agg pfile tmp False)\<rparr>))"

text \<open>The entry that \<^verbatim>\<open>main\<close> creates for a record id it has not seen.\<close>

definition new_entry :: "'d double_arith \<Rightarrow> 64 word \<Rightarrow> 'd hash_entry" where
  "new_entry ops i = \<lparr>rec_id = i, type = 0, procs = 0, rec_dat = None,
     cumul_io_total_time = d_zero ops, slowest_io_total_time = d_zero ops\<rparr>"

text \<open>Folding a sequence of records into one accumulator, in order.\<close>

fun accum_files ::
  "'d double_arith \<Rightarrow> 'd agg_fn \<Rightarrow> 'd mod_file list \<Rightarrow> 'd hash_entry \<Rightarrow> int \<Rightarrow> 'd hash_entry" where
  "accum_files ops agg [] hfile nprocs = hfile"
| "accum_files ops agg (pfile # rest) hfile nprocs =
     accum_files ops agg rest (posix_accum_file ops agg pfile hfile nprocs) nprocs"

text \<open>A record with the given id, rank and times, and no bytes moved.\<close>

definition mk_file :: "'d double_arith \<Rightarrow> 64 word \<Rightarrow> int \<Rightarrow> 'd \<Rightarrow> 'd \<Rightarrow> 'd mod_file" where
  "mk_file ops i r t slowest = \<lparr>base_rec_id = i, base_rec_rank = r, BYTES_READ = 0,
     BYTES_WRITTEN = 0, F_META_TIME = t, F_READ_TIME = d_zero ops, F_WRITE_TIME = d_zero ops,
     F_SLOWEST_RANK_TIME = slowest\<rparr>"

subsection \<open>Performance accumulation\<close>

text \<open>
  \<^verbatim>\<open>a[i] += v\<close> on a vector of \<^verbatim>\<open>double\<close> allocated with \<open>length a\<close> elements: the
  index is the record's \<^verbatim>\<open>int64_t\<close> rank as it is. C does not check it; the model
  makes an access outside the allocation a fault.
\<close>

definition add_at :: "'d double_arith \<Rightarrow> 'd list \<Rightarrow> int \<Rightarrow> 'd \<Rightarrow> fault + 'd list" where
  "add_at ops a i v =
     (if 0 \<le> i \<and> i < int (length a) then Inr (a[nat i := d_add ops (a ! nat i) v])
      else Inl (OutOfBounds i))"

definition posix_accum_perf ::
  "'d double_arith \<Rightarrow> 'd mod_file \<Rightarrow> 'd perf_data \<Rightarrow> fault + 'd perf_data" where
  "posix_accum_perf ops pfile pdata =
    (let p1 = pdata\<lparr>total_bytes := total_bytes pdata + (BYTES_READ pfile + BYTES_WRITTEN pfile)\<rparr>
     in if base_rec_rank pfile = -1
        then Inr (p1\<lparr>shared_io_total_time_by_slowest :=
                    d_add ops (shared_io_total_time_by_slowest p1) (F_SLOWEST_RANK_TIME pfile)\<rparr>)
        else
          (case add_at ops (rank_cumul_io_total_time p1) (base_rec_rank pfile)
                  (d_add ops (d_add ops (F_META_TIME pfile) (F_READ_TIME pfile))
                     (F_WRITE_TIME pfile)) of
             Inl e \<Rightarrow> Inl e
           | Inr io \<Rightarrow>
          (case add_at ops (rank_cumul_md_only_time p1) (base_rec_rank pfile) (F_META_TIME pfile) of
             Inl e \<Rightarrow> Inl e
           | Inr md \<Rightarrow>
          (case add_at ops (rank_cumul_rw_only_time p1) (base_rec_rank pfile)
                  (d_add ops (F_READ_TIME pfile) (F_WRITE_TIME pfile)) of
             Inl e \<Rightarrow> Inl e
           | Inr rw \<Rightarrow>
               Inr (p1\<lparr>rank_cumul_io_total_time := io, rank_cumul_md_only_time := md,
                       rank_cumul_rw_only_time := rw\<rparr>)))))"

text \<open>
  The vectors as \<^verbatim>\<open>main\<close> allocates them: \<^verbatim>\<open>malloc(sizeof(double)*job.nprocs)\<close>
  multiplies in \<^verbatim>\<open>size_t\<close>, to which the \<^verbatim>\<open>int64_t\<close> \<open>nprocs\<close> is converted, and the
  product wraps at \<open>2 ^ 64\<close>: the allocation holds \<open>vector_len nprocs\<close> elements,
  which is \<open>nprocs\<close> for \<open>0 \<le> nprocs < 2 ^ 61\<close> and less above that. A
  \<^verbatim>\<open>double\<close> has 8 bytes.
\<close>

definition sizeof_double :: int where
  "sizeof_double = 8"

definition vector_bytes :: "int \<Rightarrow> int" where
  "vector_bytes nprocs = size_t_of (sizeof_double * size_t_of nprocs)"

definition vector_len :: "int \<Rightarrow> nat" where
  "vector_len nprocs = nat (vector_bytes nprocs div sizeof_double)"

text \<open>
  The performance accumulator as \<^verbatim>\<open>main\<close> sets it up, and as the reset between the
  modules leaves it: \<^verbatim>\<open>memset(&pdata, 0, ...)\<close> and the three vectors, zeroed over the
  \<open>vector_bytes nprocs\<close> bytes of their allocation.
\<close>

definition zero_perf :: "'d double_arith \<Rightarrow> int \<Rightarrow> 'd perf_data" where
  "zero_perf ops nprocs = \<lparr>total_bytes = 0, slowest_rank_io_total_time = d_zero ops,
     slowest_rank_rw_only_time = d_zero ops, slowest_rank_meta_only_time = d_zero ops,
     slowest_rank_rank = 0, shared_io_total_time_by_slowest = d_zero ops,
     agg_perf_by_slowest = d_zero ops, agg_time_by_slowest = d_zero ops,
     rank_cumul_io_total_time = replicate (vector_len nprocs) (d_zero ops),
     rank_cumul_rw_only_time = replicate (vector_len nprocs) (d_zero ops),
     rank_cumul_md_only_time = replicate (vector_len nprocs) (d_zero ops)\<rparr>"

text \<open>The three vectors have \<open>n\<close> elements each.\<close>

definition vectors_sized :: "nat \<Rightarrow> 'd perf_data \<Rightarrow> bool" where
  "vectors_sized n pdata \<longleftrightarrow>
     length (rank_cumul_io_total_time pdata) = n \<and>
     length (rank_cumul_rw_only_time pdata) = n \<and>
     length (rank_cumul_md_only_time pdata) = n"

text \<open>
  The loop body and the loop of \<^verbatim>\<open>calc_perf\<close>, over the indices \<open>0 .. nprocs - 1\<close>.
  The index is an \<^verbatim>\<open>int64_t\<close>, \<open>slowest_rank_rank\<close> an \<^verbatim>\<open>int\<close>.
\<close>

definition calc_perf_step :: "'d double_arith \<Rightarrow> nat \<Rightarrow> 'd perf_data \<Rightarrow> fault + 'd perf_data" where
  "calc_perf_step ops i pdata =
     (if \<not> i < length (rank_cumul_io_total_time pdata) then Inl (OutOfBounds (int i))
      else if d_gt ops (rank_cumul_io_total_time pdata ! i) (slowest_rank_io_total_time pdata)
      then (if i < length (rank_cumul_md_only_time pdata) \<and>
               i < length (rank_cumul_rw_only_time pdata)
            then Inr (pdata\<lparr>slowest_rank_io_total_time := rank_cumul_io_total_time pdata ! i,
                          slowest_rank_meta_only_time := rank_cumul_md_only_time pdata ! i,
                          slowest_rank_rw_only_time := rank_cumul_rw_only_time pdata ! i,
                          slowest_rank_rank := int_of (int i)\<rparr>)
            else Inl (OutOfBounds (int i)))
      else Inr pdata)"

fun calc_perf_loop :: "'d double_arith \<Rightarrow> nat list \<Rightarrow> 'd perf_data \<Rightarrow> fault + 'd perf_data" where
  "calc_perf_loop ops [] pdata = Inr pdata"
| "calc_perf_loop ops (i # rest) pdata =
     (case calc_perf_step ops i pdata of Inl e \<Rightarrow> Inl e | Inr p \<Rightarrow> calc_perf_loop ops rest p)"

text \<open>
  The condition of \<^verbatim>\<open>if (slowest_rank_io_total_time + shared_io_total_time_by_slowest)\<close>:
  the truth value of the sum.
\<close>

definition agg_guard :: "'d double_arith \<Rightarrow> 'd perf_data \<Rightarrow> bool" where
  "agg_guard ops p \<longleftrightarrow>
     d_true ops (d_add ops (slowest_rank_io_total_time p) (shared_io_total_time_by_slowest p))"

text \<open>
  \<^verbatim>\<open>calc_perf\<close>: the loop, then the division under the guard (the \<^verbatim>\<open>if\<close> has no
  braces: it guards the division alone), then the assignment of
  \<open>agg_time_by_slowest\<close>.
\<close>

definition calc_perf :: "'d double_arith \<Rightarrow> 'd perf_data \<Rightarrow> int \<Rightarrow> fault + 'd perf_data" where
  "calc_perf ops pdata nprocs =
     (case calc_perf_loop ops [0 ..< nat nprocs] pdata of
        Inl e \<Rightarrow> Inl e
      | Inr p \<Rightarrow>
          (let p1 = (if agg_guard ops p
                     then p\<lparr>agg_perf_by_slowest :=
                            d_div ops (d_div ops (d_of_int64 ops (total_bytes p)) (d_MiB ops))
                              (d_add ops (slowest_rank_io_total_time p)
                                 (shared_io_total_time_by_slowest p))\<rparr>
                     else p)
           in Inr (p1\<lparr>agg_time_by_slowest :=
                      d_add ops (slowest_rank_io_total_time p1)
                        (shared_io_total_time_by_slowest p1)\<rparr>)))"

text \<open>
  A performance accumulator \<open>q\<close> that differs from \<open>p\<close> in the four fields of the
  slowest rank at most.
\<close>

definition only_slowest_differs :: "'d perf_data \<Rightarrow> 'd perf_data \<Rightarrow> bool" where
  "only_slowest_differs p q \<longleftrightarrow>
     total_bytes q = total_bytes p \<and>
     shared_io_total_time_by_slowest q = shared_io_total_time_by_slowest p \<and>
     agg_perf_by_slowest q = agg_perf_by_slowest p \<and>
     agg_time_by_slowest q = agg_time_by_slowest p \<and>
     rank_cumul_io_total_time q = rank_cumul_io_total_time p \<and>
     rank_cumul_rw_only_time q = rank_cumul_rw_only_time p \<and>
     rank_cumul_md_only_time q = rank_cumul_md_only_time p"

subsection \<open>The option mask\<close>

text \<open>
  The long options of \<^verbatim>\<open>parse_args\<close>, as \<^verbatim>\<open>getopt_long\<close> recognises them in the
  command line, and the value it returns for each: the \<^verbatim>\<open>val\<close> field of the option's
  entry (0 for \<^verbatim>\<open>--help\<close>), and \<^verbatim>\<open>'?'\<close> (63) for an option it does not know.
\<close>

datatype long_opt = OPT_all | OPT_base | OPT_file | OPT_perf | OPT_total
  | OPT_show_incomplete | OPT_help | OPT_unrecognized

fun getopt_val :: "long_opt \<Rightarrow> 32 word" where
  "getopt_val OPT_all = OPTION_ALL"
| "getopt_val OPT_base = OPTION_BASE"
| "getopt_val OPT_file = OPTION_FILE"
| "getopt_val OPT_perf = OPTION_PERF"
| "getopt_val OPT_total = OPTION_TOTAL"
| "getopt_val OPT_show_incomplete = OPTION_SHOW_INCOMPLETE"
| "getopt_val OPT_help = 0"
| "getopt_val OPT_unrecognized = 63"

text \<open>The \<^verbatim>\<open>while(1)\<close> loop with its \<^verbatim>\<open>switch\<close>: \<^verbatim>\<open>usage\<close> exits the program.\<close>

fun parse_opts :: "long_opt list \<Rightarrow> 32 word \<Rightarrow> fault + 32 word" where
  "parse_opts [] msk = Inr msk"
| "parse_opts (opt # rest) msk =
     (let c = getopt_val opt
      in if c = OPTION_ALL \<or> c = OPTION_BASE \<or> c = OPTION_FILE \<or> c = OPTION_PERF \<or>
            c = OPTION_TOTAL \<or> c = OPTION_SHOW_INCOMPLETE
         then parse_opts rest (msk OR c)
         else Inl UsageExit)"

text \<open>
  \<^verbatim>\<open>parse_args\<close>: the options of the command line in order, and the file name when
  an argument is left after them (\<^verbatim>\<open>optind < argc\<close>). It returns the mask and the
  file name.
\<close>

definition parse_args :: "long_opt list \<Rightarrow> string option \<Rightarrow> fault + (32 word \<times> string)" where
  "parse_args opts arg =
     (case parse_opts opts 0 of
        Inl e \<Rightarrow> Inl e
      | Inr msk \<Rightarrow>
          (case arg of
             None \<Rightarrow> Inl UsageExit
           | Some filename \<Rightarrow>
               Inr (if msk = 0 \<or> msk = OPTION_SHOW_INCOMPLETE then msk OR OPTION_BASE else msk,
                    filename)))"

subsection \<open>Mount point and file system type of a record\<close>

text \<open>
  \<^verbatim>\<open>struct darshan_mnt_info\<close> (declared in the log utilities): the mount path and the
  file system type. C strings are modelled as character lists without the terminating
  NUL.
\<close>

record darshan_mnt_info =
  mnt_path :: string
  mnt_type :: string

text \<open>
  \<^verbatim>\<open>strncmp(s1, s2, n) == 0\<close>: the two strings agree on their first \<open>n\<close> characters,
  or both end before that, equal. \<^verbatim>\<open>strlen\<close> is \<open>length\<close>.
\<close>

definition strncmp_eq :: "string \<Rightarrow> string \<Rightarrow> nat \<Rightarrow> bool" where
  "strncmp_eq s1 s2 n \<longleftrightarrow> take n s1 = take n s2"

text \<open>
  The loop over the mount table in \<^verbatim>\<open>main\<close>, which stops (\<^verbatim>\<open>break\<close>) at the first
  entry that matches.
\<close>

fun find_mount :: "darshan_mnt_info list \<Rightarrow> string \<Rightarrow> darshan_mnt_info option" where
  "find_mount [] rec_name = None"
| "find_mount (m # rest) rec_name =
     (if strncmp_eq (mnt_path m) rec_name (length (mnt_path m)) then Some m
      else find_mount rest rec_name)"

text \<open>
  The pair \<^verbatim>\<open>(mnt_pt, fs_type)\<close> that \<^verbatim>\<open>main\<close> prints for a record: \<open>ref\<close> is the
  record's name from the name hash, if it has one. Both pointers start as \<^verbatim>\<open>NULL\<close>
  and are replaced by \<^verbatim>\<open>"UNKNOWN"\<close> when still \<^verbatim>\<open>NULL\<close> after the search.
\<close>

definition record_mount :: "darshan_mnt_info list \<Rightarrow> string option \<Rightarrow> string \<times> string" where
  "record_mount mnt_data_array ref =
     (let found = (case ref of
                     Some rec_name \<Rightarrow> find_mount mnt_data_array rec_name
                   | None \<Rightarrow> None);
          mnt_pt = map_option mnt_path found;
          fs_type = map_option mnt_type found
      in (case mnt_pt of None \<Rightarrow> ''UNKNOWN'' | Some p \<Rightarrow> p,
          case fs_type of None \<Rightarrow> ''UNKNOWN'' | Some t \<Rightarrow> t))"

text \<open>The mount table lists its paths from the longest to the shortest.\<close>

definition longest_first :: "darshan_mnt_info list \<Rightarrow> bool" where
  "longest_first mnts \<longleftrightarrow>
     sorted_wrt (\<lambda>a b. length (mnt_path b) \<le> length (mnt_path a)) mnts"

subsection \<open>The module loop of main\<close>

text \<open>
  \<^verbatim>\<open>mpiio_accum_file\<close>, \<^verbatim>\<open>stdio_accum_file\<close>, \<^verbatim>\<open>mpiio_accum_perf\<close> and
  \<^verbatim>\<open>stdio_accum_perf\<close> repeat the POSIX functions statement by statement, with the
  counters of their own module.
\<close>

definition mpiio_accum_file ::
  "'d double_arith \<Rightarrow> 'd agg_fn \<Rightarrow> 'd mod_file \<Rightarrow> 'd hash_entry \<Rightarrow> int \<Rightarrow> 'd hash_entry" where
  "mpiio_accum_file ops agg mfile hfile nprocs =
    (let h1 = hfile\<lparr>procs := procs hfile + 1\<rparr>;
         h2 = (if base_rec_rank mfile = -1
               then h1\<lparr>slowest_io_total_time := F_SLOWEST_RANK_TIME mfile\<rparr>
               else h1\<lparr>slowest_io_total_time :=
                      max_c ops (slowest_io_total_time h1)
                        (d_add ops (d_add ops (F_META_TIME mfile) (F_READ_TIME mfile))
                           (F_WRITE_TIME mfile))\<rparr>);
         h3 = (if base_rec_rank mfile = -1
               then h2\<lparr>procs := nprocs, type := type h2 OR FILETYPE_SHARED\<rparr>
               else if procs h2 > 1
               then h2\<lparr>type := (type h2 AND NOT FILETYPE_UNIQUE) OR FILETYPE_PARTSHARED\<rparr>
               else h2\<lparr>type := type h2 OR FILETYPE_UNIQUE\<rparr>);
         h4 = h3\<lparr>cumul_io_total_time := d_add ops (cumul_io_total_time h3)
                 (d_add ops (d_add ops (F_META_TIME mfile) (F_READ_TIME mfile))
                    (F_WRITE_TIME mfile))\<rparr>
     in (case rec_dat h4 of
           None \<Rightarrow> h4\<lparr>rec_dat := Some (agg mfile (zero_file ops) True)\<rparr>
         | Some tmp \<Rightarrow> h4\<lparr>rec_dat := Some (agg mfile tmp False)\<rparr>))"

definition stdio_accum_file ::
  "'d double_arith \<Rightarrow> 'd agg_fn \<Rightarrow> 'd mod_file \<Rightarrow> 'd hash_entry \<Rightarrow> int \<Rightarrow> 'd hash_entry" where
  "stdio_accum_file ops agg pfile hfile nprocs =
    (let h1 = hfile\<lparr>procs := procs hfile + 1\<rparr>;
         h2 = (if base_rec_rank pfile = -1
               then h1\<lparr>slowest_io_total_time := F_SLOWEST_RANK_TIME pfile\<rparr>
               else h1\<lparr>slowest_io_total_time :=
                      max_c ops (slowest_io_total_time h1)
                        (d_add ops (d_add ops (F_META_TIME pfile) (F_READ_TIME pfile))
                           (F_WRITE_TIME pfile))\<rparr>);
         h3 = (if base_rec_rank pfile = -1
               then h2\<lparr>procs := nprocs, type := type h2 OR FILETYPE_SHARED\<rparr>
               else if procs h2 > 1
               then h2\<lparr>type := (type h2 AND NOT FILETYPE_UNIQUE) OR FILETYPE_PARTSHARED\<rparr>
               else h2\<lparr>type := type h2 OR FILETYPE_UNIQUE\<rparr>);
         h4 = h3\<lparr>cumul_io_total_time := d_add ops (cumul_io_total_time h3)
                 (d_add ops (d_add ops (F_META_TIME pfile) (F_READ_TIME pfile))
                    (F_WRITE_TIME pfile))\<rparr>
     in (case rec_dat h4 of
           None \<Rightarrow> h4\<lparr>rec_dat := Some (agg pfile (zero_file ops) True)\<rparr>
         | Some tmp \<Rightarrow> h4\<lparr>rec_dat := Some (agg pfile tmp False)\<rparr>))"

definition mpiio_accum_perf ::
  "'d double_arith \<Rightarrow> 'd mod_file \<Rightarrow> 'd perf_data \<Rightarrow> fault + 'd perf_data" where
  "mpiio_accum_perf ops mfile pdata =
    (let p1 = pdata\<lparr>total_bytes := total_bytes pdata + (BYTES_READ mfile + BYTES_WRITTEN mfile)\<rparr>
     in if base_rec_rank mfile = -1
        then Inr (p1\<lparr>shared_io_total_time_by_slowest :=
                    d_add ops (shared_io_total_time_by_slowest p1) (F_SLOWEST_RANK_TIME mfile)\<rparr>)
        else
          (case add_at ops (rank_cumul_io_total_time p1) (base_rec_rank mfile)
                  (d_add ops (d_add ops (F_META_TIME mfile) (F_READ_TIME mfile))
                     (F_WRITE_TIME mfile)) of
             Inl e \<Rightarrow> Inl e
           | Inr io \<Rightarrow>
          (case add_at ops (rank_cumul_md_only_time p1) (base_rec_rank mfile) (F_META_TIME mfile) of
             Inl e \<Rightarrow> Inl e
           | Inr md \<Rightarrow>
          (case add_at ops (rank_cumul_rw_only_time p1) (base_rec_rank mfile)
                  (d_add ops (F_READ_TIME mfile) (F_WRITE_TIME mfile)) of
             Inl e \<Rightarrow> Inl e
           | Inr rw \<Rightarrow>
               Inr (p1\<lparr>rank_cumul_io_total_time := io, rank_cumul_md_only_time := md,
                       rank_cumul_rw_only_time := rw\<rparr>)))))"

definition stdio_accum_perf ::
  "'d double_arith \<Rightarrow> 'd mod_file \<Rightarrow> 'd perf_data \<Rightarrow> fault + 'd perf_data" where
  "stdio_accum_perf ops pfile pdata =
    (let p1 = pdata\<lparr>total_bytes := total_bytes pdata + (BYTES_READ pfile + BYTES_WRITTEN pfile)\<rparr>
     in if base_rec_rank pfile = -1
        then Inr (p1\<lparr>shared_io_total_time_by_slowest :=
                    d_add ops (shared_io_total_time_by_slowest p1) (F_SLOWEST_RANK_TIME pfile)\<rparr>)
        else
          (case add_at ops (rank_cumul_io_total_time p1) (base_rec_rank pfile)
                  (d_add ops (d_add ops (F_META_TIME pfile) (F_READ_TIME pfile))
                     (F_WRITE_TIME pfile)) of
             Inl e \<Rightarrow> Inl e
           | Inr io \<Rightarrow>
          (case add_at ops (rank_cumul_md_only_time p1) (base_rec_rank pfile) (F_META_TIME pfile) of
             Inl e \<Rightarrow> Inl e
           | Inr md \<Rightarrow>
          (case add_at ops (rank_cumul_rw_only_time p1) (base_rec_rank pfile)
                  (d_add ops (F_READ_TIME pfile) (F_WRITE_TIME pfile)) of
             Inl e \<Rightarrow> Inl e
           | Inr rw \<Rightarrow>
               Inr (p1\<lparr>rank_cumul_io_total_time := io, rank_cumul_md_only_time := md,
                       rank_cumul_rw_only_time := rw\<rparr>)))))"

text \<open>
  The module identifiers that \<^verbatim>\<open>main\<close> tells apart (the enumeration is declared in
  the log format header): \<open>UNKNOWN_MOD\<close> stands for an index at or above
  \<^verbatim>\<open>DARSHAN_KNOWN_MODULE_COUNT\<close>, \<open>OTHER_MOD\<close> for any other known module.
\<close>

datatype module_id = DARSHAN_POSIX_MOD | DARSHAN_MPIIO_MOD | DARSHAN_STDIO_MOD
  | DARSHAN_BGQ_MOD | DXT_POSIX_MOD | DXT_MPIIO_MOD | OTHER_MOD | UNKNOWN_MOD

text \<open>How the record loop of a module ends: \<^verbatim>\<open>log_get_record\<close> returns 0 or -1.\<close>

datatype get_record_end = END_OF_RECORDS | PARSE_ERROR

text \<open>The aggregators of the modules, for the examples: the same one for each.\<close>

definition example_aggs :: "'d double_arith \<Rightarrow> module_id \<Rightarrow> 'd agg_fn" where
  "example_aggs ops i = example_agg ops"

text \<open>
  What the log holds for one module index: the length of its region, its partial
  flag, whether log utilities are defined for it, the records that
  \<^verbatim>\<open>log_get_record\<close> returns with 1, in order, and how the stream ends.
\<close>

record 'd mod_log =
  mod_id :: module_id
  mod_len :: nat
  partial_flag :: bool
  has_logutils :: bool
  mod_records :: "'d mod_file list"
  mod_end :: get_record_end

text \<open>
  The aggregation state of \<^verbatim>\<open>main\<close>: the totals accumulator, the hash table of the
  per-file accumulators in insertion order, the performance accumulator, the count of
  empty modules, and the performance figures printed so far. The file tallies
  (\<^verbatim>\<open>fdata\<close>) and the other output are not modelled; allocation is taken to succeed
  (\<^verbatim>\<open>main\<close> returns -1 when it does not).
\<close>

record 'd parser_state =
  total :: "'d hash_entry"
  file_hash_table :: "(64 word \<times> 'd hash_entry) list"
  pdata :: "'d perf_data"
  empty_mods :: nat
  perf_printed :: "'d perf_data list"

definition init_state :: "'d double_arith \<Rightarrow> int \<Rightarrow> 'd parser_state" where
  "init_state ops nprocs = \<lparr>total = new_entry ops 0, file_hash_table = [],
     pdata = zero_perf ops nprocs, empty_mods = 0, perf_printed = []\<rparr>"

text \<open>\<^verbatim>\<open>HASH_FIND\<close>, \<^verbatim>\<open>HASH_ADD\<close>, and the update of an entry through its pointer.\<close>

definition hash_find :: "(64 word \<times> 'd hash_entry) list \<Rightarrow> 64 word \<Rightarrow> 'd hash_entry option" where
  "hash_find tbl k = map_of tbl k"

definition hash_add ::
  "(64 word \<times> 'd hash_entry) list \<Rightarrow> 'd hash_entry \<Rightarrow> (64 word \<times> 'd hash_entry) list" where
  "hash_add tbl hfile = tbl @ [(rec_id hfile, hfile)]"

fun hash_store ::
  "64 word \<Rightarrow> 'd hash_entry \<Rightarrow> (64 word \<times> 'd hash_entry) list \<Rightarrow> (64 word \<times> 'd hash_entry) list" where
  "hash_store k v [] = []"
| "hash_store k v ((k', v') # rest) =
     (if k' = k then (k', v) # rest else (k', v') # hash_store k v rest)"

text \<open>
  The part of the record loop that aggregates a record of the POSIX, MPI-IO or STDIO
  module: find or create the file's entry, fold the record into the totals, into the
  entry and into the performance accumulator.
\<close>

definition accum_record ::
  "'d double_arith \<Rightarrow> (module_id \<Rightarrow> 'd agg_fn) \<Rightarrow> module_id \<Rightarrow> int \<Rightarrow> 'd mod_file \<Rightarrow>
     'd parser_state \<Rightarrow> fault + 'd parser_state" where
  "accum_record ops agg i nprocs mod_buf s =
    (let tbl = (case hash_find (file_hash_table s) (base_rec_id mod_buf) of
                  None \<Rightarrow> hash_add (file_hash_table s) (new_entry ops (base_rec_id mod_buf))
                | Some h \<Rightarrow> file_hash_table s);
         hfile = (case hash_find (file_hash_table s) (base_rec_id mod_buf) of
                    None \<Rightarrow> new_entry ops (base_rec_id mod_buf)
                  | Some h \<Rightarrow> h)
     in if i = DARSHAN_POSIX_MOD then
          (case posix_accum_perf ops mod_buf (pdata s) of
             Inl e \<Rightarrow> Inl e
           | Inr p \<Rightarrow> Inr (s\<lparr>total := posix_accum_file ops (agg i) mod_buf (total s) nprocs,
               file_hash_table := hash_store (base_rec_id mod_buf)
                  (posix_accum_file ops (agg i) mod_buf hfile nprocs) tbl,
               pdata := p\<rparr>))
        else if i = DARSHAN_MPIIO_MOD then
          (case mpiio_accum_perf ops mod_buf (pdata s) of
             Inl e \<Rightarrow> Inl e
           | Inr p \<Rightarrow> Inr (s\<lparr>total := mpiio_accum_file ops (agg i) mod_buf (total s) nprocs,
               file_hash_table := hash_store (base_rec_id mod_buf)
                  (mpiio_accum_file ops (agg i) mod_buf hfile nprocs) tbl,
               pdata := p\<rparr>))
        else if i = DARSHAN_STDIO_MOD then
          (case stdio_accum_perf ops mod_buf (pdata s) of
             Inl e \<Rightarrow> Inl e
           | Inr p \<Rightarrow> Inr (s\<lparr>total := stdio_accum_file ops (agg i) mod_buf (total s) nprocs,
               file_hash_table := hash_store (base_rec_id mod_buf)
                  (stdio_accum_file ops (agg i) mod_buf hfile nprocs) tbl,
               pdata := p\<rparr>))
        else Inr (s\<lparr>file_hash_table := tbl\<rparr>))"

text \<open>
  The record loop over the records of one module; for a module other than the three
  it only prints (\<^verbatim>\<open>continue\<close> before the aggregation).
\<close>

fun record_loop ::
  "'d double_arith \<Rightarrow> (module_id \<Rightarrow> 'd agg_fn) \<Rightarrow> module_id \<Rightarrow> int \<Rightarrow> 'd mod_file list \<Rightarrow>
     'd parser_state \<Rightarrow> fault + 'd parser_state" where
  "record_loop ops agg i nprocs [] s = Inr s"
| "record_loop ops agg i nprocs (mod_buf # rest) s =
     (if i \<noteq> DARSHAN_POSIX_MOD \<and> i \<noteq> DARSHAN_MPIIO_MOD \<and> i \<noteq> DARSHAN_STDIO_MOD
      then record_loop ops agg i nprocs rest s
      else (case accum_record ops agg i nprocs mod_buf s of
              Inl e \<Rightarrow> Inl e
            | Inr s' \<Rightarrow> record_loop ops agg i nprocs rest s'))"

text \<open>
  The code under \<^verbatim>\<open>/* reset data structures for next module */\<close>: the totals and
  the performance accumulator are zeroed, the three vectors are zeroed in place, over
  the bytes of their allocation, and the hash table is emptied.
\<close>

definition reset_module :: "'d double_arith \<Rightarrow> int \<Rightarrow> 'd parser_state \<Rightarrow> 'd parser_state" where
  "reset_module ops nprocs s =
     s\<lparr>total := new_entry ops 0, pdata := zero_perf ops nprocs, file_hash_table := []\<rparr>"

text \<open>
  After the record loop: a parse error moves on to the next module at once
  (\<^verbatim>\<open>if(ret == -1) continue;\<close>), and so does a module other than the three;
  otherwise the performance figures are computed and printed when asked for, and the
  state is reset.
\<close>

definition end_of_module ::
  "'d double_arith \<Rightarrow> 32 word \<Rightarrow> int \<Rightarrow> 'd mod_log \<Rightarrow> 'd parser_state \<Rightarrow> fault + 'd parser_state" where
  "end_of_module ops msk nprocs m s =
     (if mod_end m = PARSE_ERROR then Inr s
      else if mod_id m \<noteq> DARSHAN_POSIX_MOD \<and> mod_id m \<noteq> DARSHAN_MPIIO_MOD \<and>
              mod_id m \<noteq> DARSHAN_STDIO_MOD then Inr s
      else if msk AND OPTION_PERF \<noteq> 0 then
        (case calc_perf ops (pdata s) nprocs of
           Inl e \<Rightarrow> Inl e
         | Inr p \<Rightarrow>
             Inr (reset_module ops nprocs (s\<lparr>pdata := p, perf_printed := perf_printed s @ [p]\<rparr>)))
      else Inr (reset_module ops nprocs s))"

text \<open>One iteration of the loop over the modules.\<close>

definition parse_module ::
  "'d double_arith \<Rightarrow> (module_id \<Rightarrow> 'd agg_fn) \<Rightarrow> 32 word \<Rightarrow> int \<Rightarrow> 'd mod_log \<Rightarrow>
     'd parser_state \<Rightarrow> fault + 'd parser_state" where
  "parse_module ops agg msk nprocs m s =
    (let s1 = (if mod_len m = 0 then s\<lparr>empty_mods := empty_mods s + 1\<rparr> else s)
     in if mod_len m = 0 \<and> \<not> partial_flag m then Inr s1
        else if mod_len m \<noteq> 0 \<and> mod_id m = UNKNOWN_MOD then Inr s1
        else if mod_len m \<noteq> 0 \<and> \<not> has_logutils m then Inr s1
        else if mod_len m \<noteq> 0 \<and> (mod_id m = DXT_POSIX_MOD \<or> mod_id m = DXT_MPIIO_MOD) then Inr s1
        else if mod_len m \<noteq> 0 \<and> mod_id m \<noteq> DARSHAN_POSIX_MOD \<and> mod_id m \<noteq> DARSHAN_MPIIO_MOD \<and>
                mod_id m \<noteq> DARSHAN_STDIO_MOD \<and> msk AND OPTION_BASE = 0 then Inr s1
        else if partial_flag m \<and> msk AND OPTION_SHOW_INCOMPLETE = 0 then Inl IncompleteData
        else if partial_flag m \<and> mod_len m = 0 then Inr s1
        else (case record_loop ops agg (mod_id m) nprocs (mod_records m) s1 of
                Inl e \<Rightarrow> Inl e
              | Inr s2 \<Rightarrow> end_of_module ops msk nprocs m s2))"

fun parse_modules ::
  "'d double_arith \<Rightarrow> (module_id \<Rightarrow> 'd agg_fn) \<Rightarrow> 32 word \<Rightarrow> int \<Rightarrow> 'd mod_log list \<Rightarrow>
     'd parser_state \<Rightarrow> fault + 'd parser_state" where
  "parse_modules ops agg msk nprocs [] s = Inr s"
| "parse_modules ops agg msk nprocs (m # rest) s =
     (case parse_module ops agg msk nprocs m s of
        Inl e \<Rightarrow> Inl e
      | Inr s' \<Rightarrow> parse_modules ops agg msk nprocs rest s')"

subsection \<open>The time accumulators after a record stream\<close>

text \<open>
  The value that repeated \<^verbatim>\<open>+=\<close> leaves in an accumulator that held \<open>a\<close>: the addends
  are added one by one, in order, by the addition of \<^verbatim>\<open>double\<close>.
\<close>

definition accumulated :: "'d double_arith \<Rightarrow> 'd \<Rightarrow> 'd list \<Rightarrow> 'd" where
  "accumulated ops a xs = foldl (d_add ops) a xs"

text \<open>
  The addends of a record stream, in stream order: the meta + read + write times of
  the records of file \<open>f\<close>; those of the records of rank \<open>k\<close>; and the slowest-rank
  times of the records of rank -1.
\<close>

definition file_times :: "'d double_arith \<Rightarrow> 64 word \<Rightarrow> 'd mod_file list \<Rightarrow> 'd list" where
  "file_times ops f recs = map (io_time ops) (filter (\<lambda>r. base_rec_id r = f) recs)"

definition rank_times :: "'d double_arith \<Rightarrow> int \<Rightarrow> 'd mod_file list \<Rightarrow> 'd list" where
  "rank_times ops k recs = map (io_time ops) (filter (\<lambda>r. base_rec_rank r = k) recs)"

definition shared_recs :: "'d mod_file list \<Rightarrow> 'd mod_file list" where
  "shared_recs recs = filter (\<lambda>r. base_rec_rank r = -1) recs"

definition shared_times :: "'d mod_file list \<Rightarrow> 'd list" where
  "shared_times recs = map F_SLOWEST_RANK_TIME (shared_recs recs)"

text \<open>
  The \<open>cumul_io_total_time\<close> of the per-file accumulator of file \<open>f\<close>, if the table
  has one.
\<close>

definition cumul_of ::
  "(64 word \<times> 'd hash_entry) list \<Rightarrow> 64 word \<Rightarrow> 'd option" where
  "cumul_of tbl f = map_option cumul_io_total_time (hash_find tbl f)"

text \<open>
  What the table holds for file \<open>f\<close> after a stream with the addends \<open>xs\<close> for that
  file: an accumulator that was there has the addends added; one that was not is
  created, with \<open>0.0\<close>, by the first record of the file.
\<close>

definition cumul_after :: "'d double_arith \<Rightarrow> 'd option \<Rightarrow> 'd list \<Rightarrow> 'd option" where
  "cumul_after ops c xs =
     (case c of
        Some a \<Rightarrow> Some (accumulated ops a xs)
      | None \<Rightarrow> if xs = [] then None else Some (accumulated ops (d_zero ops) xs))"

text \<open>Every rank of the stream is -1 or an index of vectors of \<open>n\<close> elements.\<close>

definition ranks_ok :: "nat \<Rightarrow> 'd mod_file list \<Rightarrow> bool" where
  "ranks_ok n recs \<longleftrightarrow>
     list_all (\<lambda>r. base_rec_rank r = -1 \<or> (0 \<le> base_rec_rank r \<and> base_rec_rank r < int n)) recs"

text \<open>
  The sum of \<open>cumul_io_total_time\<close> over the per-file accumulators, in the
  arithmetic of the examples.
\<close>

definition sum_cumul :: "(64 word \<times> real hash_entry) list \<Rightarrow> real" where
  "sum_cumul tbl = sum_list (map (\<lambda>e. cumul_io_total_time (snd e)) tbl)"

subsection \<open>A module region for the examples\<close>

text \<open>A module region that reaches the record loop: not empty, not partial, with log utilities.\<close>

definition mk_mod :: "module_id \<Rightarrow> 'd mod_file list \<Rightarrow> get_record_end \<Rightarrow> 'd mod_log" where
  "mk_mod i recs e = \<lparr>mod_id = i, mod_len = 1, partial_flag = False, has_logutils = True,
     mod_records = recs, mod_end = e\<rparr>"

subsection \<open>DXT: trace buffers under a memory budget\<close>

text \<open>
  The DXT runtime of \<^verbatim>\<open>darshan-runtime/lib/darshan-dxt.c\<close>. The budget
  \<^verbatim>\<open>dxt_mem_remaining\<close> is a C \<^verbatim>\<open>int\<close>, compared and subtracted against
  \<^verbatim>\<open>size_t\<close> values: the conversions of C are written out. The sizes of
  \<^verbatim>\<open>segment_info\<close> and of \<^verbatim>\<open>struct dxt_file_record\<close>, which are declared in the DXT
  log format header, are parameters. Each function is one step: a call runs to its
  end before the next one starts, as the lock makes the budget updates do.
\<close>

definition DXT_IO_TRACE_MEM_MAX :: int where
  "DXT_IO_TRACE_MEM_MAX = 4 * 1024 * 1024"

definition IO_TRACE_BUF_SIZE :: int where
  "IO_TRACE_BUF_SIZE = 64"

record dxt_sizes =
  sizeof_segment_info :: int
  sizeof_dxt_file_record :: int

definition sizes_ok :: "dxt_sizes \<Rightarrow> bool" where
  "sizes_ok sz \<longleftrightarrow>
     0 < sizeof_segment_info sz \<and> sizeof_segment_info sz < 2 ^ 32 \<and>
     0 < sizeof_dxt_file_record sz \<and> sizeof_dxt_file_record sz < 2 ^ 32"

text \<open>
  A segment; the MPI-IO functions do not write the offset, which is \<open>None\<close> then.
\<close>

record segment_info =
  seg_offset :: "int option"
  seg_length :: int
  seg_start_time :: real
  seg_end_time :: real

text \<open>
  A trace buffer: \<open>None\<close> is the \<^verbatim>\<open>NULL\<close> pointer, \<open>Some b\<close> a buffer allocated for
  \<open>length b\<close> segments, of which an element is \<open>None\<close> until it is written.
\<close>

type_synonym trace_buf = "segment_info option list option"

record dxt_file_record =
  base_id :: "64 word"
  base_rank :: int
  write_count :: int
  read_count :: int
  write_traces :: trace_buf
  read_traces :: trace_buf

record dxt_file_record_ref =
  file_rec :: dxt_file_record
  write_available_buf :: int
  read_available_buf :: int

text \<open>
  \<^verbatim>\<open>struct dxt_posix_runtime\<close> and \<^verbatim>\<open>struct dxt_mpiio_runtime\<close>: the table of
  the record references, in insertion order, and the count of file records.
\<close>

record dxt_runtime =
  rec_id_hash :: "(64 word \<times> dxt_file_record_ref) list"
  file_rec_count :: int

record dxt_state =
  dxt_posix_runtime :: "dxt_runtime option"
  dxt_mpiio_runtime :: "dxt_runtime option"
  posix_my_rank :: int
  mpiio_my_rank :: int
  instrumentation_disabled :: bool
  dxt_mem_remaining :: int

definition dxt_init :: dxt_state where
  "dxt_init = \<lparr>dxt_posix_runtime = None, dxt_mpiio_runtime = None, posix_my_rank = -1,
     mpiio_my_rank = -1, instrumentation_disabled = False,
     dxt_mem_remaining = DXT_IO_TRACE_MEM_MAX\<rparr>"

text \<open>
  What a call meets outside this file: whether the registration with darshan-core
  leaves the runtime usable, the rank the core reports, and whether the allocations
  and \<^verbatim>\<open>darshan_add_record_ref\<close> succeed.
\<close>

record dxt_env =
  register_ok :: bool
  core_rank :: int
  ref_malloc_ok :: bool
  rec_malloc_ok :: bool
  add_ref_ok :: bool
  realloc_ok :: bool

text \<open>
  Modelled from the spec: the record reference table of darshan-common
  (\<^verbatim>\<open>darshan_lookup_record_ref\<close>, \<^verbatim>\<open>darshan_add_record_ref\<close>) is not part of this
  file. It resolves a file record keyed by its id: the lookup returns the reference
  stored under the id, if any, and the addition stores a new one (or fails).
\<close>

definition darshan_lookup_record_ref ::
  "(64 word \<times> dxt_file_record_ref) list \<Rightarrow> 64 word \<Rightarrow> dxt_file_record_ref option" where
  "darshan_lookup_record_ref refs rid = map_of refs rid"

text \<open>The update of a record reference through its pointer.\<close>

fun ref_store ::
  "64 word \<Rightarrow> dxt_file_record_ref \<Rightarrow> (64 word \<times> dxt_file_record_ref) list \<Rightarrow>
     (64 word \<times> dxt_file_record_ref) list" where
  "ref_store k v [] = []"
| "ref_store k v ((k', v') # rest) =
     (if k' = k then (k', v) # rest else (k', v') # ref_store k v rest)"

definition put_posix :: "64 word \<Rightarrow> dxt_file_record_ref \<Rightarrow> int \<Rightarrow> dxt_state \<Rightarrow> dxt_state" where
  "put_posix rid rec_ref remaining s =
     s\<lparr>dxt_posix_runtime :=
          map_option (\<lambda>rt. rt\<lparr>rec_id_hash := ref_store rid rec_ref (rec_id_hash rt)\<rparr>)
            (dxt_posix_runtime s),
        dxt_mem_remaining := remaining\<rparr>"

definition put_mpiio :: "64 word \<Rightarrow> dxt_file_record_ref \<Rightarrow> int \<Rightarrow> dxt_state \<Rightarrow> dxt_state" where
  "put_mpiio rid rec_ref remaining s =
     s\<lparr>dxt_mpiio_runtime :=
          map_option (\<lambda>rt. rt\<lparr>rec_id_hash := ref_store rid rec_ref (rec_id_hash rt)\<rparr>)
            (dxt_mpiio_runtime s),
        dxt_mem_remaining := remaining\<rparr>"

text \<open>
  \<^verbatim>\<open>realloc\<close> of a trace buffer to \<open>n\<close> segments: the old segments are kept, the new
  ones are not written yet; \<^verbatim>\<open>NULL\<close> when it fails (the source does not test it).
\<close>

definition realloc_traces :: "bool \<Rightarrow> trace_buf \<Rightarrow> nat \<Rightarrow> trace_buf" where
  "realloc_traces ok old n =
     (if ok
      then Some (case old of
                   None \<Rightarrow> replicate n None
                 | Some b \<Rightarrow> take n b @ replicate (n - length b) None)
      else None)"

text \<open>
  \<^verbatim>\<open>check_wr_trace_buf\<close> and \<^verbatim>\<open>check_rd_trace_buf\<close>, on the record reference and the
  budget: they return both.
\<close>

definition check_wr_trace_buf ::
  "dxt_sizes \<Rightarrow> dxt_env \<Rightarrow> dxt_file_record_ref \<Rightarrow> int \<Rightarrow> dxt_file_record_ref \<times> int" where
  "check_wr_trace_buf sz env rec_ref remaining =
    (let wcount = int_of (write_count (file_rec rec_ref));
         avail = int_of (write_available_buf rec_ref)
     in if wcount \<ge> avail then
          (let inc0 = (if avail = 0 then IO_TRACE_BUF_SIZE else avail);
               inc = (if size_t_of (size_t_of inc0 * sizeof_segment_info sz) > size_t_of remaining
                      then int_of (size_t_of remaining div sizeof_segment_info sz)
                      else inc0);
               remaining' = int_of (size_t_of (size_t_of remaining -
                              size_t_of (size_t_of inc * sizeof_segment_info sz)))
           in if inc > 0 then
                (let avail' = int_of (avail + inc)
                 in (rec_ref\<lparr>file_rec := (file_rec rec_ref)\<lparr>write_traces :=
                        realloc_traces (realloc_ok env) (write_traces (file_rec rec_ref))
                          (nat (size_t_of (size_t_of avail' * sizeof_segment_info sz)
                                  div sizeof_segment_info sz))\<rparr>,
                      write_available_buf := avail'\<rparr>, remaining'))
              else (rec_ref, remaining'))
        else (rec_ref, remaining))"

definition check_rd_trace_buf ::
  "dxt_sizes \<Rightarrow> dxt_env \<Rightarrow> dxt_file_record_ref \<Rightarrow> int \<Rightarrow> dxt_file_record_ref \<times> int" where
  "check_rd_trace_buf sz env rec_ref remaining =
    (let rcount = int_of (read_count (file_rec rec_ref));
         avail = int_of (read_available_buf rec_ref)
     in if rcount \<ge> avail then
          (let inc0 = (if avail = 0 then IO_TRACE_BUF_SIZE else avail);
               inc = (if size_t_of (size_t_of inc0 * sizeof_segment_info sz) > size_t_of remaining
                      then int_of (size_t_of remaining div sizeof_segment_info sz)
                      else inc0);
               remaining' = int_of (size_t_of (size_t_of remaining -
                              size_t_of (size_t_of inc * sizeof_segment_info sz)))
           in if inc > 0 then
                (let avail' = int_of (avail + inc)
                 in (rec_ref\<lparr>file_rec := (file_rec rec_ref)\<lparr>read_traces :=
                        realloc_traces (realloc_ok env) (read_traces (file_rec rec_ref))
                          (nat (size_t_of (size_t_of avail' * sizeof_segment_info sz)
                                  div sizeof_segment_info sz))\<rparr>,
                      read_available_buf := avail'\<rparr>, remaining'))
              else (rec_ref, remaining'))
        else (rec_ref, remaining))"

text \<open>The runtime initialisation: the runtime stays \<^verbatim>\<open>NULL\<close> when it fails.\<close>

definition dxt_posix_runtime_initialize :: "dxt_env \<Rightarrow> dxt_state \<Rightarrow> dxt_state" where
  "dxt_posix_runtime_initialize env s =
     (if register_ok env
      then s\<lparr>dxt_posix_runtime := Some \<lparr>rec_id_hash = [], file_rec_count = 0\<rparr>,
             posix_my_rank := core_rank env\<rparr>
      else s\<lparr>posix_my_rank := core_rank env\<rparr>)"

definition dxt_mpiio_runtime_initialize :: "dxt_env \<Rightarrow> dxt_state \<Rightarrow> dxt_state" where
  "dxt_mpiio_runtime_initialize env s =
     (if register_ok env
      then s\<lparr>dxt_mpiio_runtime := Some \<lparr>rec_id_hash = [], file_rec_count = 0\<rparr>,
             mpiio_my_rank := core_rank env\<rparr>
      else s\<lparr>mpiio_my_rank := core_rank env\<rparr>)"

text \<open>The record reference that a successful creation leaves in the table.\<close>

definition new_ref :: "64 word \<Rightarrow> int \<Rightarrow> dxt_file_record_ref" where
  "new_ref rid rank =
     \<lparr>file_rec = \<lparr>base_id = rid, base_rank = rank, write_count = 0, read_count = 0,
                  write_traces = None, read_traces = None\<rparr>,
      write_available_buf = 0, read_available_buf = 0\<rparr>"

text \<open>
  \<^verbatim>\<open>dxt_posix_track_new_file_record\<close>: \<open>None\<close> is the \<^verbatim>\<open>NULL\<close> it returns when the
  budget has no room for a record or an allocation fails.
\<close>

definition dxt_posix_track_new_file_record ::
  "dxt_sizes \<Rightarrow> dxt_env \<Rightarrow> 64 word \<Rightarrow> dxt_state \<Rightarrow>
     fault + (dxt_file_record_ref option \<times> dxt_state)" where
  "dxt_posix_track_new_file_record sz env rid s =
     (if size_t_of (dxt_mem_remaining s) < sizeof_dxt_file_record sz then Inr (None, s)
      else if \<not> ref_malloc_ok env then Inr (None, s)
      else if \<not> rec_malloc_ok env then Inr (None, s)
      else (case dxt_posix_runtime s of
              None \<Rightarrow> Inl NullPointer
            | Some rt \<Rightarrow>
                if \<not> add_ref_ok env then Inr (None, s)
                else Inr (Some (new_ref rid (posix_my_rank s)),
                  s\<lparr>dxt_mem_remaining :=
                       int_of (size_t_of (size_t_of (dxt_mem_remaining s) - sizeof_dxt_file_record sz)),
                     dxt_posix_runtime := Some (rt\<lparr>
                       rec_id_hash := rec_id_hash rt @ [(rid, new_ref rid (posix_my_rank s))],
                       file_rec_count := file_rec_count rt + 1\<rparr>)\<rparr>)))"

text \<open>
  \<^verbatim>\<open>dxt_mpiio_track_new_file_record\<close>: when \<^verbatim>\<open>darshan_add_record_ref\<close> fails it leaves
  with \<^verbatim>\<open>return;\<close>, and the caller uses a value that was never set.
\<close>

definition dxt_mpiio_track_new_file_record ::
  "dxt_sizes \<Rightarrow> dxt_env \<Rightarrow> 64 word \<Rightarrow> dxt_state \<Rightarrow>
     fault + (dxt_file_record_ref option \<times> dxt_state)" where
  "dxt_mpiio_track_new_file_record sz env rid s =
     (if size_t_of (dxt_mem_remaining s) < sizeof_dxt_file_record sz then Inr (None, s)
      else if \<not> ref_malloc_ok env then Inr (None, s)
      else if \<not> rec_malloc_ok env then Inr (None, s)
      else (case dxt_mpiio_runtime s of
              None \<Rightarrow> Inl NullPointer
            | Some rt \<Rightarrow>
                if \<not> add_ref_ok env then Inl IndeterminateReturn
                else Inr (Some (new_ref rid (mpiio_my_rank s)),
                  s\<lparr>dxt_mem_remaining :=
                       int_of (size_t_of (size_t_of (dxt_mem_remaining s) - sizeof_dxt_file_record sz)),
                     dxt_mpiio_runtime := Some (rt\<lparr>
                       rec_id_hash := rec_id_hash rt @ [(rid, new_ref rid (mpiio_my_rank s))],
                       file_rec_count := file_rec_count rt + 1\<rparr>)\<rparr>)))"

text \<open>
  The end of a trace function: \<^verbatim>\<open>traces[count] = segment; count += 1\<close>, unless the
  buffer is full (\<^verbatim>\<open>count == available_buf\<close>: the segment is dropped).
\<close>

definition append_write :: "segment_info \<Rightarrow> dxt_file_record_ref \<Rightarrow> fault + dxt_file_record_ref" where
  "append_write seg rec_ref =
     (if write_count (file_rec rec_ref) = write_available_buf rec_ref then Inr rec_ref
      else (case write_traces (file_rec rec_ref) of
              None \<Rightarrow> Inl NullPointer
            | Some b \<Rightarrow>
                if 0 \<le> write_count (file_rec rec_ref) \<and>
                   write_count (file_rec rec_ref) < int (length b)
                then Inr (rec_ref\<lparr>file_rec := (file_rec rec_ref)\<lparr>
                       write_traces := Some (b[nat (write_count (file_rec rec_ref)) := Some seg]),
                       write_count := write_count (file_rec rec_ref) + 1\<rparr>\<rparr>)
                else Inl (OutOfBounds (write_count (file_rec rec_ref)))))"

definition append_read :: "segment_info \<Rightarrow> dxt_file_record_ref \<Rightarrow> fault + dxt_file_record_ref" where
  "append_read seg rec_ref =
     (if read_count (file_rec rec_ref) = read_available_buf rec_ref then Inr rec_ref
      else (case read_traces (file_rec rec_ref) of
              None \<Rightarrow> Inl NullPointer
            | Some b \<Rightarrow>
                if 0 \<le> read_count (file_rec rec_ref) \<and>
                   read_count (file_rec rec_ref) < int (length b)
                then Inr (rec_ref\<lparr>file_rec := (file_rec rec_ref)\<lparr>
                       read_traces := Some (b[nat (read_count (file_rec rec_ref)) := Some seg]),
                       read_count := read_count (file_rec rec_ref) + 1\<rparr>\<rparr>)
                else Inl (OutOfBounds (read_count (file_rec rec_ref)))))"

text \<open>The four trace functions.\<close>

definition dxt_posix_write ::
  "dxt_sizes \<Rightarrow> dxt_env \<Rightarrow> 64 word \<Rightarrow> int \<Rightarrow> int \<Rightarrow> real \<Rightarrow> real \<Rightarrow> dxt_state \<Rightarrow> fault + dxt_state" where
  "dxt_posix_write sz env rid offset len start_time end_time s =
    (if instrumentation_disabled s then Inr s
     else
       (let s1 = (if dxt_posix_runtime s = None then dxt_posix_runtime_initialize env s else s)
        in case dxt_posix_runtime s1 of
             None \<Rightarrow> Inr s1
           | Some rt \<Rightarrow>
               (case (case darshan_lookup_record_ref (rec_id_hash rt) rid of
                        Some rec_ref \<Rightarrow> Inr (Some rec_ref, s1)
                      | None \<Rightarrow> dxt_posix_track_new_file_record sz env rid s1) of
                  Inl e \<Rightarrow> Inl e
                | Inr (None, s2) \<Rightarrow> Inr s2
                | Inr (Some rec_ref, s2) \<Rightarrow>
                    (case append_write
                            \<lparr>seg_offset = Some offset, seg_length = len,
                             seg_start_time = start_time, seg_end_time = end_time\<rparr>
                            (fst (check_wr_trace_buf sz env rec_ref (dxt_mem_remaining s2))) of
                       Inl e \<Rightarrow> Inl e
                     | Inr rec_ref' \<Rightarrow>
                         Inr (put_posix rid rec_ref'
                                (snd (check_wr_trace_buf sz env rec_ref (dxt_mem_remaining s2))) s2)))))"

definition dxt_posix_read ::
  "dxt_sizes \<Rightarrow> dxt_env \<Rightarrow> 64 word \<Rightarrow> int \<Rightarrow> int \<Rightarrow> real \<Rightarrow> real \<Rightarrow> dxt_state \<Rightarrow> fault + dxt_state" where
  "dxt_posix_read sz env rid offset len start_time end_time s =
    (if instrumentation_disabled s then Inr s
     else
       (let s1 = (if dxt_posix_runtime s = None then dxt_posix_runtime_initialize env s else s)
        in case dxt_posix_runtime s1 of
             None \<Rightarrow> Inr s1
           | Some rt \<Rightarrow>
               (case (case darshan_lookup_record_ref (rec_id_hash rt) rid of
                        Some rec_ref \<Rightarrow> Inr (Some rec_ref, s1)
                      | None \<Rightarrow> dxt_posix_track_new_file_record sz env rid s1) of
                  Inl e \<Rightarrow> Inl e
                | Inr (None, s2) \<Rightarrow> Inr s2
                | Inr (Some rec_ref, s2) \<Rightarrow>
                    (case append_read
                            \<lparr>seg_offset = Some offset, seg_length = len,
                             seg_start_time = start_time, seg_end_time = end_time\<rparr>
                            (fst (check_rd_trace_buf sz env rec_ref (dxt_mem_remaining s2))) of
                       Inl e \<Rightarrow> Inl e
                     | Inr rec_ref' \<Rightarrow>
                         Inr (put_posix rid rec_ref'
                                (snd (check_rd_trace_buf sz env rec_ref (dxt_mem_remaining s2))) s2)))))"

definition dxt_mpiio_write ::
  "dxt_sizes \<Rightarrow> dxt_env \<Rightarrow> 64 word \<Rightarrow> int \<Rightarrow> real \<Rightarrow> real \<Rightarrow> dxt_state \<Rightarrow> fault + dxt_state" where
  "dxt_mpiio_write sz env rid len start_time end_time s =
    (if instrumentation_disabled s then Inr s
     else
       (let s1 = (if dxt_mpiio_runtime s = None then dxt_mpiio_runtime_initialize env s else s)
        in case dxt_mpiio_runtime s1 of
             None \<Rightarrow> Inr s1
           | Some rt \<Rightarrow>
               (case (case darshan_lookup_record_ref (rec_id_hash rt) rid of
                        Some rec_ref \<Rightarrow> Inr (Some rec_ref, s1)
                      | None \<Rightarrow> dxt_mpiio_track_new_file_record sz env rid s1) of
                  Inl e \<Rightarrow> Inl e
                | Inr (None, s2) \<Rightarrow> Inr s2
                | Inr (Some rec_ref, s2) \<Rightarrow>
                    (case append_write
                            \<lparr>seg_offset = None, seg_length = len,
                             seg_start_time = start_time, seg_end_time = end_time\<rparr>
                            (fst (check_wr_trace_buf sz env rec_ref (dxt_mem_remaining s2))) of
                       Inl e \<Rightarrow> Inl e
                     | Inr rec_ref' \<Rightarrow>
                         Inr (put_mpiio rid rec_ref'
                                (snd (check_wr_trace_buf sz env rec_ref (dxt_mem_remaining s2))) s2)))))"

definition dxt_mpiio_read ::
  "dxt_sizes \<Rightarrow> dxt_env \<Rightarrow> 64 word \<Rightarrow> int \<Rightarrow> real \<Rightarrow> real \<Rightarrow> dxt_state \<Rightarrow> fault + dxt_state" where
  "dxt_mpiio_read sz env rid len start_time end_time s =
    (if instrumentation_disabled s then Inr s
     else
       (let s1 = (if dxt_mpiio_runtime s = None then dxt_mpiio_runtime_initialize env s else s)
        in case dxt_mpiio_runtime s1 of
             None \<Rightarrow> Inr s1
           | Some rt \<Rightarrow>
               (case (case darshan_lookup_record_ref (rec_id_hash rt) rid of
                        Some rec_ref \<Rightarrow> Inr (Some rec_ref, s1)
                      | None \<Rightarrow> dxt_mpiio_track_new_file_record sz env rid s1) of
                  Inl e \<Rightarrow> Inl e
                | Inr (None, s2) \<Rightarrow> Inr s2
                | Inr (Some rec_ref, s2) \<Rightarrow>
                    (case append_read
                            \<lparr>seg_offset = None, seg_length = len,
                             seg_start_time = start_time, seg_end_time = end_time\<rparr>
                            (fst (check_rd_trace_buf sz env rec_ref (dxt_mem_remaining s2))) of
                       Inl e \<Rightarrow> Inl e
                     | Inr rec_ref' \<Rightarrow>
                         Inr (put_mpiio rid rec_ref'
                                (snd (check_rd_trace_buf sz env rec_ref (dxt_mem_remaining s2))) s2)))))"

text \<open>
  The shutdown functions: the records that hold a segment are serialised, each as its
  file record followed by its write segments and its read segments; the runtime is
  freed and the instrumentation disabled. The budget is not credited.
\<close>

definition written :: "trace_buf \<Rightarrow> int \<Rightarrow> segment_info option list" where
  "written traces n = (case traces of None \<Rightarrow> [] | Some b \<Rightarrow> take (nat n) b)"

definition serialize_refs ::
  "(64 word \<times> dxt_file_record_ref) list \<Rightarrow>
     (dxt_file_record \<times> segment_info option list \<times> segment_info option list) list" where
  "serialize_refs refs =
     map (\<lambda>e. (file_rec (snd e),
                written (write_traces (file_rec (snd e))) (write_count (file_rec (snd e))),
                written (read_traces (file_rec (snd e))) (read_count (file_rec (snd e)))))
       (filter (\<lambda>e. \<not> (write_count (file_rec (snd e)) = 0 \<and> read_count (file_rec (snd e)) = 0))
          refs)"

definition dxt_posix_shutdown ::
  "dxt_state \<Rightarrow>
     fault + ((dxt_file_record \<times> segment_info option list \<times> segment_info option list) list
              \<times> dxt_state)" where
  "dxt_posix_shutdown s =
     (case dxt_posix_runtime s of
        None \<Rightarrow> Inl AssertFailed
      | Some rt \<Rightarrow>
          Inr (serialize_refs (rec_id_hash rt),
               s\<lparr>dxt_posix_runtime := None, instrumentation_disabled := True\<rparr>))"

definition dxt_mpiio_shutdown ::
  "dxt_state \<Rightarrow>
     fault + ((dxt_file_record \<times> segment_info option list \<times> segment_info option list) list
              \<times> dxt_state)" where
  "dxt_mpiio_shutdown s =
     (case dxt_mpiio_runtime s of
        None \<Rightarrow> Inl AssertFailed
      | Some rt \<Rightarrow>
          Inr (serialize_refs (rec_id_hash rt),
               s\<lparr>dxt_mpiio_runtime := None, instrumentation_disabled := True\<rparr>))"

text \<open>The calls into the DXT runtime, and a sequence of them.\<close>

datatype dxt_op =
    Posix_write dxt_env "64 word" int int real real
  | Posix_read dxt_env "64 word" int int real real
  | Mpiio_write dxt_env "64 word" int real real
  | Mpiio_read dxt_env "64 word" int real real
  | Posix_shutdown
  | Mpiio_shutdown

fun dxt_step :: "dxt_sizes \<Rightarrow> dxt_op \<Rightarrow> dxt_state \<Rightarrow> fault + dxt_state" where
  "dxt_step sz (Posix_write env rid offset len t0 t1) s = dxt_posix_write sz env rid offset len t0 t1 s"
| "dxt_step sz (Posix_read env rid offset len t0 t1) s = dxt_posix_read sz env rid offset len t0 t1 s"
| "dxt_step sz (Mpiio_write env rid len t0 t1) s = dxt_mpiio_write sz env rid len t0 t1 s"
| "dxt_step sz (Mpiio_read env rid len t0 t1) s = dxt_mpiio_read sz env rid len t0 t1 s"
| "dxt_step sz Posix_shutdown s = map_sum id snd (dxt_posix_shutdown s)"
| "dxt_step sz Mpiio_shutdown s = map_sum id snd (dxt_mpiio_shutdown s)"

fun dxt_run :: "dxt_sizes \<Rightarrow> dxt_op list \<Rightarrow> dxt_state \<Rightarrow> fault + dxt_state" where
  "dxt_run sz [] s = Inr s"
| "dxt_run sz (op # ops) s =
     (case dxt_step sz op s of Inl e \<Rightarrow> Inl e | Inr s' \<Rightarrow> dxt_run sz ops s')"

text \<open>
  The bytes held: for every file record of both runtimes, the record itself and its
  two trace buffers.
\<close>

definition buf_len :: "trace_buf \<Rightarrow> int" where
  "buf_len traces = (case traces of None \<Rightarrow> 0 | Some b \<Rightarrow> int (length b))"

definition ref_bytes :: "dxt_sizes \<Rightarrow> dxt_file_record_ref \<Rightarrow> int" where
  "ref_bytes sz rec_ref =
     sizeof_dxt_file_record sz +
     (buf_len (write_traces (file_rec rec_ref)) + buf_len (read_traces (file_rec rec_ref))) *
       sizeof_segment_info sz"

definition refs_bytes :: "dxt_sizes \<Rightarrow> (64 word \<times> dxt_file_record_ref) list \<Rightarrow> int" where
  "refs_bytes sz refs = sum_list (map (\<lambda>e. ref_bytes sz (snd e)) refs)"

definition runtime_refs :: "dxt_runtime option \<Rightarrow> (64 word \<times> dxt_file_record_ref) list" where
  "runtime_refs r = (case r of None \<Rightarrow> [] | Some rt \<Rightarrow> rec_id_hash rt)"

definition dxt_bytes_held :: "dxt_sizes \<Rightarrow> dxt_state \<Rightarrow> int" where
  "dxt_bytes_held sz s =
     refs_bytes sz (runtime_refs (dxt_posix_runtime s)) +
     refs_bytes sz (runtime_refs (dxt_mpiio_runtime s))"

text \<open>
  A record reference is consistent: each buffer is allocated for as many segments as
  \<open>available_buf\<close> says, and the count is within it.
\<close>

definition ref_ok :: "dxt_file_record_ref \<Rightarrow> bool" where
  "ref_ok rec_ref \<longleftrightarrow>
     buf_len (write_traces (file_rec rec_ref)) = write_available_buf rec_ref \<and>
     0 \<le> write_count (file_rec rec_ref) \<and>
     write_count (file_rec rec_ref) \<le> write_available_buf rec_ref \<and>
     buf_len (read_traces (file_rec rec_ref)) = read_available_buf rec_ref \<and>
     0 \<le> read_count (file_rec rec_ref) \<and>
     read_count (file_rec rec_ref) \<le> read_available_buf rec_ref"

definition refs_ok :: "(64 word \<times> dxt_file_record_ref) list \<Rightarrow> bool" where
  "refs_ok refs \<longleftrightarrow> list_all (\<lambda>e. ref_ok (snd e)) refs"

text \<open>The invariant of the budget.\<close>

definition dxt_inv :: "dxt_sizes \<Rightarrow> dxt_state \<Rightarrow> bool" where
  "dxt_inv sz s \<longleftrightarrow>
     0 \<le> dxt_mem_remaining s \<and>
     dxt_bytes_held sz s + dxt_mem_remaining s \<le> DXT_IO_TRACE_MEM_MAX \<and>
     refs_ok (runtime_refs (dxt_posix_runtime s)) \<and>
     refs_ok (runtime_refs (dxt_mpiio_runtime s))"

subsection \<open>DXT: the increment granted to a growth request\<close>

text \<open>
  The increment that a growth request is granted: the size of the buffer (64 segments
  for the first request), clamped to what the budget has left.
\<close>

definition granted_inc :: "dxt_sizes \<Rightarrow> int \<Rightarrow> int \<Rightarrow> int" where
  "granted_inc sz avail remaining =
     (if (if avail = 0 then IO_TRACE_BUF_SIZE else avail) * sizeof_segment_info sz > remaining
      then remaining div sizeof_segment_info sz
      else (if avail = 0 then IO_TRACE_BUF_SIZE else avail))"

subsection \<open>DXT: what a call keeps of a record reference\<close>

text \<open>
  A record reference keeps what is full: with a budget below one segment, a direction
  whose count has reached its buffer size is still in that state afterwards.
\<close>

definition keeps_full :: "dxt_sizes \<Rightarrow> int \<Rightarrow> dxt_file_record_ref \<Rightarrow> dxt_file_record_ref \<Rightarrow> bool" where
  "keeps_full sz remaining rec_ref rec_ref' \<longleftrightarrow>
     (remaining < sizeof_segment_info sz \<and>
      write_count (file_rec rec_ref) = write_available_buf rec_ref \<longrightarrow>
        write_count (file_rec rec_ref') = write_available_buf rec_ref') \<and>
     (remaining < sizeof_segment_info sz \<and>
      read_count (file_rec rec_ref) = read_available_buf rec_ref \<longrightarrow>
        read_count (file_rec rec_ref') = read_available_buf rec_ref')"

subsection \<open>DXT: what a call keeps of the state\<close>

text \<open>
  What every call keeps, from the state before it to the state after it: the budget
  invariant, a budget that does not grow, the disabled flag once set, and, for every
  record reference of either runtime, what is full (unless the instrumentation has
  been disabled).
\<close>

definition refs_keep ::
  "dxt_sizes \<Rightarrow> int \<Rightarrow> (64 word \<times> dxt_file_record_ref) list \<Rightarrow>
     (64 word \<times> dxt_file_record_ref) list \<Rightarrow> bool" where
  "refs_keep sz remaining refs refs' \<longleftrightarrow>
     (\<forall>k r. map_of refs k = Some r \<longrightarrow>
        (\<exists>r'. map_of refs' k = Some r' \<and> keeps_full sz remaining r r'))"

definition step_ok :: "dxt_sizes \<Rightarrow> dxt_state \<Rightarrow> dxt_state \<Rightarrow> bool" where
  "step_ok sz s s' \<longleftrightarrow>
     dxt_inv sz s' \<and>
     dxt_mem_remaining s' \<le> dxt_mem_remaining s \<and>
     (instrumentation_disabled s \<longrightarrow> instrumentation_disabled s') \<and>
     (instrumentation_disabled s' \<or>
        refs_keep sz (dxt_mem_remaining s)
          (runtime_refs (dxt_posix_runtime s)) (runtime_refs (dxt_posix_runtime s')) \<and>
        refs_keep sz (dxt_mem_remaining s)
          (runtime_refs (dxt_mpiio_runtime s)) (runtime_refs (dxt_mpiio_runtime s')))"

subsection \<open>DXT: the bytes charged\<close>

text \<open>The bytes charged against the budget so far.\<close>

definition dxt_bytes_charged :: "dxt_state \<Rightarrow> int" where
  "dxt_bytes_charged s = DXT_IO_TRACE_MEM_MAX - dxt_mem_remaining s"

subsection \<open>DXT: modules, directions and frozen records\<close>

text \<open>
  The two DXT modules and the two directions, to speak of the four trace functions
  at once: the runtime of a module, the count and the buffer size of a direction, and
  the call of a module and direction (the MPI-IO functions take no offset).
\<close>

datatype dxt_mod = MOD_POSIX | MOD_MPIIO

datatype dxt_dir = DIR_WRITE | DIR_READ

fun runtime_of :: "dxt_mod \<Rightarrow> dxt_state \<Rightarrow> dxt_runtime option" where
  "runtime_of MOD_POSIX s = dxt_posix_runtime s"
| "runtime_of MOD_MPIIO s = dxt_mpiio_runtime s"

fun count_of :: "dxt_dir \<Rightarrow> dxt_file_record_ref \<Rightarrow> int" where
  "count_of DIR_WRITE r = write_count (file_rec r)"
| "count_of DIR_READ r = read_count (file_rec r)"

fun avail_of :: "dxt_dir \<Rightarrow> dxt_file_record_ref \<Rightarrow> int" where
  "avail_of DIR_WRITE r = write_available_buf r"
| "avail_of DIR_READ r = read_available_buf r"

fun traces_of :: "dxt_dir \<Rightarrow> dxt_file_record_ref \<Rightarrow> trace_buf" where
  "traces_of DIR_WRITE r = write_traces (file_rec r)"
| "traces_of DIR_READ r = read_traces (file_rec r)"

fun trace_call ::
  "dxt_mod \<Rightarrow> dxt_dir \<Rightarrow> dxt_env \<Rightarrow> 64 word \<Rightarrow> int \<Rightarrow> int \<Rightarrow> real \<Rightarrow> real \<Rightarrow> dxt_op" where
  "trace_call MOD_POSIX DIR_WRITE env rid offset len t0 t1 = Posix_write env rid offset len t0 t1"
| "trace_call MOD_POSIX DIR_READ env rid offset len t0 t1 = Posix_read env rid offset len t0 t1"
| "trace_call MOD_MPIIO DIR_WRITE env rid offset len t0 t1 = Mpiio_write env rid len t0 t1"
| "trace_call MOD_MPIIO DIR_READ env rid offset len t0 t1 = Mpiio_read env rid len t0 t1"

text \<open>
  A direction of a record is frozen: the budget has less than one segment left, and
  the instrumentation is disabled or the record's count has reached its buffer size.
\<close>

definition frozen :: "dxt_sizes \<Rightarrow> dxt_mod \<Rightarrow> dxt_dir \<Rightarrow> 64 word \<Rightarrow> dxt_state \<Rightarrow> bool" where
  "frozen sz m d rid s \<longleftrightarrow>
     dxt_mem_remaining s < sizeof_segment_info sz \<and>
     (instrumentation_disabled s \<or>
      (\<exists>r. map_of (runtime_refs (runtime_of m s)) rid = Some r \<and> count_of d r = avail_of d r))"

section \<open>Properties\<close>

subsection \<open>File types\<close>

text \<open>
  C1. The claim: after any sequence of folds into a per-file accumulator, in any order,
  a set SHARED bit excludes the UNIQUE bit. The code sets SHARED with
  \<^verbatim>\<open>hfile->type |= FILETYPE_SHARED\<close> and leaves the UNIQUE bit of an earlier per-rank
  record in place (only the PARTSHARED branch clears it): after the record of rank 0
  and then the record of rank -1 of the same file, both bits are set.
\<close>

theorem shared_after_rank_keeps_unique:
  "type (accum_files exact_arith (example_agg exact_arith)
       [mk_file exact_arith 7 0 1 1, mk_file exact_arith 7 (-1) 1 1] (new_entry exact_arith 7) 4)
     = FILETYPE_SHARED OR FILETYPE_UNIQUE
   \<and> type (accum_files exact_arith (example_agg exact_arith)
       [mk_file exact_arith 7 0 1 1, mk_file exact_arith 7 (-1) 1 1] (new_entry exact_arith 7) 4)
       AND FILETYPE_SHARED \<noteq> 0
   \<and> type (accum_files exact_arith (example_agg exact_arith)
       [mk_file exact_arith 7 0 1 1, mk_file exact_arith 7 (-1) 1 1] (new_entry exact_arith 7) 4)
       AND FILETYPE_UNIQUE \<noteq> 0"
  by (simp add: posix_accum_file_def mk_file_def new_entry_def Let_def
      FILETYPE_SHARED_def FILETYPE_UNIQUE_def FILETYPE_PARTSHARED_def)

subsection \<open>The process count of a file\<close>

lemma accum_files_append:
  "accum_files ops agg (xs @ ys) h n = accum_files ops agg ys (accum_files ops agg xs h n) n"
  by (induction xs arbitrary: h) simp_all

lemma procs_accum_rank:
  "base_rec_rank r \<noteq> -1 \<Longrightarrow> procs (posix_accum_file ops agg r h n) = procs h + 1"
  by (simp add: posix_accum_file_def Let_def split: option.splits)

lemma procs_accum_shared:
  "base_rec_rank r = -1 \<Longrightarrow> procs (posix_accum_file ops agg r h n) = n"
  by (simp add: posix_accum_file_def Let_def split: option.splits)

lemma procs_accum_files_ranks:
  "\<forall>r \<in> set rs. base_rec_rank r \<noteq> -1 \<Longrightarrow>
     procs (accum_files ops agg rs h n) = procs h + int (length rs)"
  by (induction rs arbitrary: h) (simp_all add: procs_accum_rank)

text \<open>
  C4, as amended. The claim: once a record of rank -1 has been folded into a per-file
  accumulator, \<open>procs\<close> equals \<open>nprocs\<close> whatever is folded before or after. The
  code sets \<open>procs := nprocs\<close> at the record of rank -1 and goes on counting: every
  per-rank record folded after it adds one. So \<open>procs = nprocs\<close> holds right after
  the record of rank -1 (whatever came before), and after \<open>k\<close> later per-rank
  records \<open>procs = nprocs + k\<close>.
\<close>

theorem procs_after_shared:
  assumes "base_rec_rank s = -1" and "\<forall>r \<in> set after. base_rec_rank r \<noteq> -1"
  shows "procs (accum_files ops agg (before @ s # after) h nprocs) = nprocs + int (length after)"
  using assms by (simp add: accum_files_append procs_accum_files_ranks procs_accum_shared)

text \<open>Witness of C4: one per-rank record, the record of rank -1, two per-rank records.\<close>

theorem procs_after_shared_witness:
  "base_rec_rank (mk_file exact_arith 7 (-1) 1 1) = -1
   \<and> procs (accum_files exact_arith (example_agg exact_arith)
        ([mk_file exact_arith 7 2 1 1] @ mk_file exact_arith 7 (-1) 1 1 #
           [mk_file exact_arith 7 0 1 1, mk_file exact_arith 7 1 1 1])
        (new_entry exact_arith 7) 4) = 6"
  using procs_after_shared [of "mk_file exact_arith 7 (-1) 1 1"
      "[mk_file exact_arith 7 0 1 1, mk_file exact_arith 7 1 1 1]"
      exact_arith "example_agg exact_arith" "[mk_file exact_arith 7 2 1 1]"
      "new_entry exact_arith 7" 4]
  by (simp add: mk_file_def)

text \<open>
  Counterexample to C4 as stated: with \<open>nprocs = 4\<close>, the record of rank -1 and then
  the record of rank 0 leave \<open>procs = 5\<close>.
\<close>

theorem procs_after_shared_counterexample:
  "\<not> procs (accum_files exact_arith (example_agg exact_arith)
        [mk_file exact_arith 7 (-1) 1 1, mk_file exact_arith 7 0 1 1]
        (new_entry exact_arith 7) 4) = 4"
  by (simp add: posix_accum_file_def mk_file_def new_entry_def Let_def)

subsection \<open>Performance accumulation\<close>

lemma add_at_in_range:
  "0 \<le> i \<Longrightarrow> i < int (length a) \<Longrightarrow> add_at ops a i v = Inr (a[nat i := d_add ops (a ! nat i) v])"
  by (simp add: add_at_def)

lemma add_at_out_of_range:
  "\<not> (0 \<le> i \<and> i < int (length a)) \<Longrightarrow> add_at ops a i v = Inl (OutOfBounds i)"
  by (simp add: add_at_def)

text \<open>
  The vectors that \<^verbatim>\<open>main\<close> allocates have \<open>nprocs\<close> elements when
  \<open>0 \<le> nprocs < 2 ^ 61\<close>; from \<open>2 ^ 61\<close> on the size wraps and they have fewer.
\<close>

lemma vector_len_id:
  assumes "0 \<le> nprocs" and "nprocs < 2 ^ 61"
  shows "int (vector_len nprocs) = nprocs"
proof -
  from assms have "size_t_of nprocs = nprocs" by (simp add: size_t_of_def)
  moreover from assms have "size_t_of (8 * nprocs) = 8 * nprocs" by (simp add: size_t_of_def)
  ultimately show ?thesis
    using assms by (simp add: vector_len_def vector_bytes_def sizeof_double_def)
qed

lemma vector_len_wraps: "vector_len (2 ^ 61) = 0"
  by (simp add: vector_len_def vector_bytes_def sizeof_double_def size_t_of_def)

lemma vector_len_covers:
  assumes "nprocs < 2 ^ 61"
  shows "nat nprocs \<le> vector_len nprocs"
proof (cases "0 \<le> nprocs")
  case True
  from vector_len_id [OF True assms] show ?thesis by linarith
next
  case False
  then show ?thesis by simp
qed

lemma mpiio_accum_perf_eq: "mpiio_accum_perf = posix_accum_perf"
  by (simp add: fun_eq_iff mpiio_accum_perf_def posix_accum_perf_def)

lemma stdio_accum_perf_eq: "stdio_accum_perf = posix_accum_perf"
  by (simp add: fun_eq_iff stdio_accum_perf_def posix_accum_perf_def)

text \<open>
  C2, as amended. The claim: a per-rank record whose rank lies outside \<open>[0, nprocs)\<close>
  is refused by the performance fold (reported, skipped, no index outside the vectors
  used). The code has no range check: \<^verbatim>\<open>posix_accum_perf\<close> uses the rank as the index
  as it is, on the vectors that \<^verbatim>\<open>main\<close> allocated for \<open>nprocs\<close>, which have
  \<open>vector_len nprocs\<close> elements: \<open>nprocs\<close> of them when \<open>0 \<le> nprocs < 2 ^ 61\<close>. For
  a rank that is an index of the vectors it adds the record's bytes to
  \<open>total_bytes\<close> (an \<^verbatim>\<open>int64_t\<close>: the sum wraps) and the record's times at that
  index of the three vectors (additions of \<^verbatim>\<open>double\<close>, whatever they yield); for
  any other rank but -1 the same indexing leaves the vectors' allocation, which the
  model reports as the fault \<open>OutOfBounds\<close>: nothing is refused or skipped. The
  folds of the MPI-IO and STDIO modules are the same function.
\<close>

theorem accum_perf_rank_index:
  assumes "base_rec_rank pfile \<noteq> -1" and "vectors_sized (vector_len nprocs) pd"
  shows "(0 \<le> base_rec_rank pfile \<and> base_rec_rank pfile < int (vector_len nprocs) \<longrightarrow>
           posix_accum_perf ops pfile pd =
             Inr (pd\<lparr>total_bytes := total_bytes pd + (BYTES_READ pfile + BYTES_WRITTEN pfile),
                   rank_cumul_io_total_time := (rank_cumul_io_total_time pd)
                     [nat (base_rec_rank pfile) :=
                        d_add ops (rank_cumul_io_total_time pd ! nat (base_rec_rank pfile))
                          (io_time ops pfile)],
                   rank_cumul_md_only_time := (rank_cumul_md_only_time pd)
                     [nat (base_rec_rank pfile) :=
                        d_add ops (rank_cumul_md_only_time pd ! nat (base_rec_rank pfile))
                          (F_META_TIME pfile)],
                   rank_cumul_rw_only_time := (rank_cumul_rw_only_time pd)
                     [nat (base_rec_rank pfile) :=
                        d_add ops (rank_cumul_rw_only_time pd ! nat (base_rec_rank pfile))
                          (rw_time ops pfile)]\<rparr>))
       \<and> (\<not> (0 \<le> base_rec_rank pfile \<and> base_rec_rank pfile < int (vector_len nprocs)) \<longrightarrow>
           posix_accum_perf ops pfile pd = Inl (OutOfBounds (base_rec_rank pfile)))
       \<and> (0 \<le> nprocs \<and> nprocs < 2 ^ 61 \<longrightarrow> int (vector_len nprocs) = nprocs)
       \<and> mpiio_accum_perf ops pfile pd = posix_accum_perf ops pfile pd
       \<and> stdio_accum_perf ops pfile pd = posix_accum_perf ops pfile pd"
  using assms
  by (simp add: posix_accum_perf_def vectors_sized_def Let_def add_at_def io_time_def rw_time_def
      vector_len_id mpiio_accum_perf_eq stdio_accum_perf_eq)

text \<open>
  Witness of C2, with two processes: rank 1 is an index of the vectors, rank 5 is
  not; and a record of rank 0 whose bytes make the \<^verbatim>\<open>int64_t\<close> sum wrap.
\<close>

theorem accum_perf_rank_index_witness:
  "base_rec_rank (mk_file exact_arith 7 1 3 0) \<noteq> -1
   \<and> vectors_sized (vector_len 2) (zero_perf exact_arith 2)
   \<and> int (vector_len 2) = 2
   \<and> posix_accum_perf exact_arith (mk_file exact_arith 7 1 3 0) (zero_perf exact_arith 2) =
       Inr ((zero_perf exact_arith 2)\<lparr>rank_cumul_io_total_time := [0, 3],
              rank_cumul_md_only_time := [0, 3], rank_cumul_rw_only_time := [0, 0]\<rparr>)
   \<and> posix_accum_perf exact_arith (mk_file exact_arith 7 5 3 0) (zero_perf exact_arith 2) =
       Inl (OutOfBounds 5)
   \<and> posix_accum_perf exact_arith
         ((mk_file exact_arith 7 0 3 0)\<lparr>BYTES_READ := 2 ^ 63 - 1, BYTES_WRITTEN := 1\<rparr>)
         (zero_perf exact_arith 2) =
       Inr ((zero_perf exact_arith 2)\<lparr>total_bytes := 2 ^ 63, rank_cumul_io_total_time := [3, 0],
              rank_cumul_md_only_time := [3, 0], rank_cumul_rw_only_time := [0, 0]\<rparr>)
   \<and> sint (2 ^ 63 :: 64 word) = - (2 ^ 63)"
proof -
  have n: "vector_len 2 = 2"
    by (simp add: vector_len_def vector_bytes_def sizeof_double_def size_t_of_def)
  have v: "vectors_sized (vector_len 2) (zero_perf exact_arith 2)"
    by (simp add: vectors_sized_def zero_perf_def)
  have r: "base_rec_rank (mk_file exact_arith 7 1 3 0) \<noteq> -1"
      "base_rec_rank (mk_file exact_arith 7 5 3 0) \<noteq> -1"
      "base_rec_rank ((mk_file exact_arith 7 0 3 0)\<lparr>BYTES_READ := 2 ^ 63 - 1, BYTES_WRITTEN := 1\<rparr>) \<noteq> -1"
    by (simp_all add: mk_file_def)
  have s: "sint (2 ^ 63 :: 64 word) = - (2 ^ 63)"
    by (simp add: sint_uint)
  from accum_perf_rank_index [OF r(1) v, of exact_arith]
    accum_perf_rank_index [OF r(2) v, of exact_arith]
    accum_perf_rank_index [OF r(3) v, of exact_arith] v s
  show ?thesis
    by (simp add: n mk_file_def zero_perf_def io_time_def rw_time_def exact_arith_def
        numeral_2_eq_2)
qed

text \<open>
  Counterexample to C2 as stated: with two processes, the record of rank 5 is not
  skipped (the accumulator is not returned as it was); index 5 is used.
\<close>

theorem accum_perf_skips_bad_rank_counterexample:
  "\<not> (posix_accum_perf exact_arith (mk_file exact_arith 7 5 3 0) (zero_perf exact_arith 2) =
        Inr (zero_perf exact_arith 2))
   \<and> posix_accum_perf exact_arith (mk_file exact_arith 7 5 3 0) (zero_perf exact_arith 2) =
       Inl (OutOfBounds 5)"
  by (simp add: posix_accum_perf_def mk_file_def zero_perf_def Let_def add_at_def
      vector_len_def vector_bytes_def sizeof_double_def size_t_of_def)

subsection \<open>Finalising the performance figures\<close>

lemma calc_perf_step_Inr:
  assumes "vectors_sized n p" and "i < n"
  shows "\<exists>q. calc_perf_step ops i p = Inr q \<and> vectors_sized n q \<and> only_slowest_differs p q \<and>
           slowest_rank_io_total_time q =
             max_c ops (rank_cumul_io_total_time p ! i) (slowest_rank_io_total_time p)"
  using assms
  by (simp add: calc_perf_step_def vectors_sized_def only_slowest_differs_def max_c_def)

lemma only_slowest_differs_trans:
  "only_slowest_differs p q \<Longrightarrow> only_slowest_differs q r \<Longrightarrow> only_slowest_differs p r"
  by (simp add: only_slowest_differs_def)

text \<open>
  The loop returns when its indices are indices of the vectors; it changes the fields of
  the slowest rank at most, and the time it leaves is the one that \<^verbatim>\<open>max\<close> with
  each entry in turn gives.
\<close>

lemma calc_perf_loop_Inr:
  assumes "vectors_sized n p" and "\<forall>i \<in> set idx. i < n"
  shows "\<exists>q. calc_perf_loop ops idx p = Inr q \<and> vectors_sized n q \<and> only_slowest_differs p q \<and>
           slowest_rank_io_total_time q =
             foldl (\<lambda>m i. max_c ops (rank_cumul_io_total_time p ! i) m)
               (slowest_rank_io_total_time p) idx"
  using assms
proof (induction idx arbitrary: p)
  case Nil
  then show ?case by (simp add: only_slowest_differs_def)
next
  case (Cons i idx)
  from Cons.prems obtain q where q: "calc_perf_step ops i p = Inr q" "vectors_sized n q"
      "only_slowest_differs p q"
      "slowest_rank_io_total_time q =
         max_c ops (rank_cumul_io_total_time p ! i) (slowest_rank_io_total_time p)"
    using calc_perf_step_Inr [of n p i ops] by auto
  from Cons.IH [OF q(2)] Cons.prems(2) obtain r where
      r: "calc_perf_loop ops idx q = Inr r" "vectors_sized n r" "only_slowest_differs q r"
        "slowest_rank_io_total_time r =
           foldl (\<lambda>m i. max_c ops (rank_cumul_io_total_time q ! i) m)
             (slowest_rank_io_total_time q) idx"
    by auto
  from q(3) have io: "rank_cumul_io_total_time q = rank_cumul_io_total_time p"
    by (simp add: only_slowest_differs_def)
  from q r only_slowest_differs_trans [OF q(3) r(3)] show ?case by (simp add: io)
qed

text \<open>
  C7. \<^verbatim>\<open>calc_perf\<close>, called on the vectors that \<^verbatim>\<open>main\<close> allocated for \<open>nprocs\<close>
  (\<open>nprocs < 2 ^ 61\<close>), returns. Its loop changes the four fields of the slowest
  rank at most; it leaves in \<open>p\<close> the slowest rank's time, the \<^verbatim>\<open>max\<close> of the time of
  the input and the entries \<open>0 .. nprocs - 1\<close> in turn. The result \<open>q\<close> is \<open>p\<close>
  with \<open>agg_time_by_slowest\<close> set, always, to the sum of the slowest rank's time and
  the shared time of the input, and with \<open>agg_perf_by_slowest\<close> set, under the guard
  alone, to \<open>(total_bytes / 1048576) / agg_time_by_slowest\<close>, from the
  \<open>total_bytes\<close> of the input; the guard is the truth value of that same sum. When
  the guard fails no division is made and \<open>agg_perf_by_slowest\<close> keeps the value
  of the input (zero, as \<^verbatim>\<open>main\<close> zeroes the accumulator before each module). In an
  arithmetic where the sum of two zeros is zero, as the machine's is, the guard
  fails when both summands are zero, and holds only when they are not both zero.
\<close>

theorem calc_perf_guarded:
  assumes "nprocs < 2 ^ 61" and "vectors_sized (vector_len nprocs) pd"
  shows "\<exists>p q. calc_perf_loop ops [0 ..< nat nprocs] pd = Inr p
     \<and> only_slowest_differs pd p
     \<and> slowest_rank_io_total_time p =
         foldl (\<lambda>m i. max_c ops (rank_cumul_io_total_time pd ! i) m)
           (slowest_rank_io_total_time pd) [0 ..< nat nprocs]
     \<and> calc_perf ops pd nprocs = Inr q
     \<and> q = p\<lparr>agg_perf_by_slowest := agg_perf_by_slowest q,
             agg_time_by_slowest := agg_time_by_slowest q\<rparr>
     \<and> agg_time_by_slowest q =
         d_add ops (slowest_rank_io_total_time p) (shared_io_total_time_by_slowest pd)
     \<and> (agg_guard ops p \<longleftrightarrow>
          d_true ops (d_add ops (slowest_rank_io_total_time p) (shared_io_total_time_by_slowest pd)))
     \<and> (agg_guard ops p \<longrightarrow>
          agg_perf_by_slowest q =
            d_div ops (d_div ops (d_of_int64 ops (total_bytes pd)) (d_MiB ops))
              (agg_time_by_slowest q))
     \<and> (\<not> agg_guard ops p \<longrightarrow> agg_perf_by_slowest q = agg_perf_by_slowest pd)
     \<and> (zero_sum ops \<and> agg_guard ops p \<longrightarrow>
          d_true ops (slowest_rank_io_total_time p) \<or> d_true ops (shared_io_total_time_by_slowest pd))
     \<and> (zero_sum ops \<and> \<not> d_true ops (slowest_rank_io_total_time p) \<and>
          \<not> d_true ops (shared_io_total_time_by_slowest pd) \<longrightarrow>
          \<not> agg_guard ops p \<and> agg_perf_by_slowest q = agg_perf_by_slowest pd)"
proof -
  from vector_len_covers [OF assms(1)]
  have "\<forall>i \<in> set [0 ..< nat nprocs]. i < vector_len nprocs" by simp
  from calc_perf_loop_Inr [OF assms(2) this, of ops] obtain p where
      p: "calc_perf_loop ops [0 ..< nat nprocs] pd = Inr p" "only_slowest_differs pd p"
        "slowest_rank_io_total_time p =
           foldl (\<lambda>m i. max_c ops (rank_cumul_io_total_time pd ! i) m)
             (slowest_rank_io_total_time pd) [0 ..< nat nprocs]"
    by blast
  from p(2) have f: "shared_io_total_time_by_slowest p = shared_io_total_time_by_slowest pd"
      "total_bytes p = total_bytes pd" "agg_perf_by_slowest p = agg_perf_by_slowest pd"
    by (simp_all add: only_slowest_differs_def)
  have z: "zero_sum ops \<Longrightarrow> \<not> d_true ops (slowest_rank_io_total_time p) \<Longrightarrow>
      \<not> d_true ops (shared_io_total_time_by_slowest pd) \<Longrightarrow>
      \<not> d_true ops (d_add ops (slowest_rank_io_total_time p) (shared_io_total_time_by_slowest pd))"
    by (simp add: zero_sum_def)
  show ?thesis
    using p z by (auto simp: calc_perf_def Let_def agg_guard_def f)
qed

text \<open>
  Witness of C7: one rank with 2 seconds, 3 seconds of shared time, 10 MiB moved (the
  guard holds: 5 seconds, 2 MiB/s); and the zeroed accumulator (the guard fails, no
  division).
\<close>

theorem calc_perf_guarded_witness:
  "(1 :: int) < 2 ^ 61
   \<and> vectors_sized (vector_len 1)
       ((zero_perf exact_arith 1)\<lparr>total_bytes := 10485760, shared_io_total_time_by_slowest := 3,
          rank_cumul_io_total_time := [2]\<rparr>)
   \<and> zero_sum exact_arith
   \<and> calc_perf exact_arith
       ((zero_perf exact_arith 1)\<lparr>total_bytes := 10485760, shared_io_total_time_by_slowest := 3,
          rank_cumul_io_total_time := [2]\<rparr>) 1 =
       Inr ((zero_perf exact_arith 1)\<lparr>total_bytes := 10485760, slowest_rank_io_total_time := 2,
          shared_io_total_time_by_slowest := 3, agg_perf_by_slowest := 2, agg_time_by_slowest := 5,
          rank_cumul_io_total_time := [2]\<rparr>)
   \<and> calc_perf exact_arith (zero_perf exact_arith 1) 1 = Inr (zero_perf exact_arith 1)"
proof -
  let ?p = "(zero_perf exact_arith 1)\<lparr>total_bytes := 10485760,
      shared_io_total_time_by_slowest := 3, rank_cumul_io_total_time := [2]\<rparr>"
  have n: "vector_len 1 = 1"
    by (simp add: vector_len_def vector_bytes_def sizeof_double_def size_t_of_def)
  have b: "(1 :: int) < 2 ^ 61" by simp
  have v1: "vectors_sized (vector_len 1) ?p" by (simp add: n vectors_sized_def zero_perf_def)
  have v0: "vectors_sized (vector_len 1) (zero_perf exact_arith 1)"
    by (simp add: n vectors_sized_def zero_perf_def)
  have zs: "zero_sum exact_arith" by (simp add: zero_sum_def exact_arith_def)
  have s: "sint (10485760 :: 64 word) = 10485760" by (simp add: sint_uint)
  have c1: "calc_perf exact_arith ?p 1 =
      Inr ((zero_perf exact_arith 1)\<lparr>total_bytes := 10485760, slowest_rank_io_total_time := 2,
          shared_io_total_time_by_slowest := 3, agg_perf_by_slowest := 2, agg_time_by_slowest := 5,
          rank_cumul_io_total_time := [2]\<rparr>)"
    by (simp add: calc_perf_def calc_perf_step_def zero_perf_def Let_def agg_guard_def n
        exact_arith_def int_of_def s)
  have c0: "calc_perf exact_arith (zero_perf exact_arith 1) 1 = Inr (zero_perf exact_arith 1)"
    by (simp add: calc_perf_def calc_perf_step_def zero_perf_def Let_def agg_guard_def n
        exact_arith_def)
  from calc_perf_guarded [OF b v1, of exact_arith] calc_perf_guarded [OF b v0, of exact_arith]
    v1 zs c1 c0
  show ?thesis by simp
qed

subsection \<open>The option mask\<close>

lemma parse_opts_show_incomplete:
  "set opts \<subseteq> {OPT_show_incomplete} \<Longrightarrow>
     parse_opts opts msk = Inr (if opts = [] then msk else msk OR OPTION_SHOW_INCOMPLETE)"
proof (induction opts arbitrary: msk)
  case Nil
  then show ?case by simp
next
  case (Cons opt opts)
  then have "opt = OPT_show_incomplete" and "set opts \<subseteq> {OPT_show_incomplete}" by auto
  with Cons.IH [of "msk OR OPTION_SHOW_INCOMPLETE"] show ?case
    by (simp add: Let_def or.assoc)
qed

text \<open>
  C10. With no option at all, or with \<^verbatim>\<open>--show-incomplete\<close> as the only option
  (given once or more), and a file name, \<^verbatim>\<open>parse_args\<close> returns a mask with the
  \<open>OPTION_BASE\<close> bit: \<open>OPTION_BASE\<close> itself, or
  \<open>OPTION_SHOW_INCOMPLETE | OPTION_BASE\<close>.
\<close>

theorem parse_args_default_base:
  assumes "set opts \<subseteq> {OPT_show_incomplete}"
  shows "parse_args opts (Some filename) =
           Inr (if opts = [] then OPTION_BASE else OPTION_SHOW_INCOMPLETE OR OPTION_BASE, filename)
       \<and> (\<exists>msk. parse_args opts (Some filename) = Inr (msk, filename) \<and> msk AND OPTION_BASE \<noteq> 0)"
proof -
  have base: "OPTION_BASE AND OPTION_BASE \<noteq> 0"
    "(OPTION_SHOW_INCOMPLETE OR OPTION_BASE) AND OPTION_BASE \<noteq> 0"
    by (simp_all add: OPTION_BASE_def OPTION_SHOW_INCOMPLETE_def)
  have ne: "OPTION_SHOW_INCOMPLETE \<noteq> 0"
    by (simp add: OPTION_SHOW_INCOMPLETE_def)
  show ?thesis
    using parse_opts_show_incomplete [OF assms, of 0] base ne
    by (simp add: parse_args_def)
qed

text \<open>Witness of C10: \<^verbatim>\<open>darshan-parser --show-incomplete log\<close> and \<^verbatim>\<open>darshan-parser log\<close>.\<close>

theorem parse_args_default_base_witness:
  "parse_args [OPT_show_incomplete] (Some ''log'') = Inr (129, ''log'')
   \<and> parse_args [] (Some ''log'') = Inr (1, ''log'')
   \<and> (129 :: 32 word) AND OPTION_BASE \<noteq> 0"
  using parse_args_default_base [of "[OPT_show_incomplete]" "''log''"]
    parse_args_default_base [of "[]" "''log''"]
  by (simp add: OPTION_BASE_def OPTION_SHOW_INCOMPLETE_def)

subsection \<open>Mount point and file system type of a record\<close>

lemma strncmp_eq_prefix:
  "strncmp_eq s1 s2 (length s1) \<longleftrightarrow> prefix s1 s2"
  by (auto simp: strncmp_eq_def prefix_def) (metis append_take_drop_id)

lemma find_mount_None:
  "find_mount mnts path = None \<longleftrightarrow> (\<forall>m \<in> set mnts. \<not> prefix (mnt_path m) path)"
  by (induction mnts) (simp_all add: strncmp_eq_prefix)

lemma find_mount_first:
  "find_mount mnts path = Some m \<longleftrightarrow>
     (\<exists>i < length mnts. mnts ! i = m \<and> prefix (mnt_path m) path \<and>
        (\<forall>j < i. \<not> prefix (mnt_path (mnts ! j)) path))"
proof (induction mnts)
  case Nil
  then show ?case by simp
next
  case (Cons a mnts)
  show ?case
  proof (cases "prefix (mnt_path a) path")
    case True
    have "(\<exists>i < length (a # mnts). (a # mnts) ! i = m \<and> prefix (mnt_path m) path \<and>
        (\<forall>j < i. \<not> prefix (mnt_path ((a # mnts) ! j)) path)) \<longleftrightarrow> a = m"
    proof
      assume "\<exists>i < length (a # mnts). (a # mnts) ! i = m \<and> prefix (mnt_path m) path \<and>
        (\<forall>j < i. \<not> prefix (mnt_path ((a # mnts) ! j)) path)"
      then obtain i where i: "(a # mnts) ! i = m"
          "\<forall>j < i. \<not> prefix (mnt_path ((a # mnts) ! j)) path" by blast
      have "i = 0"
      proof (rule ccontr)
        assume "i \<noteq> 0"
        then have "0 < i" by simp
        with i(2) have "\<not> prefix (mnt_path ((a # mnts) ! 0)) path" by blast
        with True show False by simp
      qed
      with i(1) show "a = m" by simp
    next
      assume "a = m"
      with True show "\<exists>i < length (a # mnts). (a # mnts) ! i = m \<and> prefix (mnt_path m) path \<and>
        (\<forall>j < i. \<not> prefix (mnt_path ((a # mnts) ! j)) path)"
        by (intro exI [of _ 0]) simp
    qed
    with True show ?thesis by (simp add: strncmp_eq_prefix)
  next
    case False
    have "(\<exists>i < length (a # mnts). (a # mnts) ! i = m \<and> prefix (mnt_path m) path \<and>
        (\<forall>j < i. \<not> prefix (mnt_path ((a # mnts) ! j)) path)) \<longleftrightarrow>
      (\<exists>i < length mnts. mnts ! i = m \<and> prefix (mnt_path m) path \<and>
        (\<forall>j < i. \<not> prefix (mnt_path (mnts ! j)) path))" (is "?L \<longleftrightarrow> ?R")
    proof
      assume ?L
      then obtain i where i: "i < length (a # mnts)" "(a # mnts) ! i = m"
          "prefix (mnt_path m) path"
          "\<forall>j < i. \<not> prefix (mnt_path ((a # mnts) ! j)) path" by blast
      from i(2,3) False have "i \<noteq> 0" by (cases i) auto
      then obtain k where k: "i = Suc k" by (cases i) auto
      have "\<forall>j < k. \<not> prefix (mnt_path (mnts ! j)) path"
      proof (intro allI impI)
        fix j assume "j < k"
        then have "Suc j < i" using k by simp
        with i(4) have "\<not> prefix (mnt_path ((a # mnts) ! Suc j)) path" by blast
        then show "\<not> prefix (mnt_path (mnts ! j)) path" by simp
      qed
      with i k show ?R by (intro exI [of _ k]) simp
    next
      assume ?R
      then obtain k where k: "k < length mnts" "mnts ! k = m" "prefix (mnt_path m) path"
          "\<forall>j < k. \<not> prefix (mnt_path (mnts ! j)) path" by blast
      have "\<forall>j < Suc k. \<not> prefix (mnt_path ((a # mnts) ! j)) path"
      proof (intro allI impI)
        fix j assume "j < Suc k"
        then show "\<not> prefix (mnt_path ((a # mnts) ! j)) path"
          using False k(4) by (cases j) auto
      qed
      with k show ?L by (intro exI [of _ "Suc k"]) simp
    qed
    with False Cons.IH show ?thesis by (simp add: strncmp_eq_prefix)
  qed
qed

lemma find_mount_longest:
  assumes "longest_first mnts" and "find_mount mnts path = Some m"
    and "m' \<in> set mnts" and "prefix (mnt_path m') path"
  shows "length (mnt_path m') \<le> length (mnt_path m)"
  using assms
proof (induction mnts)
  case Nil
  then show ?case by simp
next
  case (Cons a mnts)
  show ?case
  proof (cases "prefix (mnt_path a) path")
    case True
    with Cons.prems(2) have "m = a" by (simp add: strncmp_eq_prefix)
    with Cons.prems(1,3) show ?thesis by (auto simp: longest_first_def)
  next
    case False
    with Cons.prems have "find_mount mnts path = Some m" "m' \<in> set mnts" "longest_first mnts"
      by (auto simp: strncmp_eq_prefix longest_first_def)
    with Cons.IH Cons.prems(4) show ?thesis by blast
  qed
qed

text \<open>
  C9, as amended. The claim: the pair is found by longest-prefix match against the
  mount table, and is \<open>(UNKNOWN, UNKNOWN)\<close> when no mount path is a prefix of the
  record's path. The code takes the first entry, in the order of the table, whose
  mount path is a prefix of the path. That is \<open>(UNKNOWN, UNKNOWN)\<close> when there is
  none, and it is a longest matching entry when the table lists its paths from the
  longest to the shortest.
\<close>

theorem record_mount_first_match:
  shows "((\<forall>m \<in> set mnts. \<not> prefix (mnt_path m) path) \<longrightarrow>
            record_mount mnts (Some path) = (''UNKNOWN'', ''UNKNOWN''))
       \<and> ((\<exists>m \<in> set mnts. prefix (mnt_path m) path) \<longrightarrow>
            (\<exists>i < length mnts.
               record_mount mnts (Some path) = (mnt_path (mnts ! i), mnt_type (mnts ! i)) \<and>
               prefix (mnt_path (mnts ! i)) path \<and>
               (\<forall>j < i. \<not> prefix (mnt_path (mnts ! j)) path) \<and>
               (longest_first mnts \<longrightarrow>
                  (\<forall>m' \<in> set mnts. prefix (mnt_path m') path \<longrightarrow>
                     length (mnt_path m') \<le> length (mnt_path (mnts ! i))))))"
proof (intro conjI impI)
  assume "\<forall>m \<in> set mnts. \<not> prefix (mnt_path m) path"
  then have "find_mount mnts path = None" by (simp add: find_mount_None)
  then show "record_mount mnts (Some path) = (''UNKNOWN'', ''UNKNOWN'')"
    by (simp add: record_mount_def)
next
  assume "\<exists>m \<in> set mnts. prefix (mnt_path m) path"
  then have "find_mount mnts path \<noteq> None" by (simp add: find_mount_None)
  then obtain m where m: "find_mount mnts path = Some m" by blast
  then obtain i where i: "i < length mnts" "mnts ! i = m" "prefix (mnt_path m) path"
      "\<forall>j < i. \<not> prefix (mnt_path (mnts ! j)) path"
    using find_mount_first [of mnts path m] by blast
  have r: "record_mount mnts (Some path) = (mnt_path m, mnt_type m)"
    using m by (simp add: record_mount_def)
  have l: "longest_first mnts \<longrightarrow> (\<forall>m' \<in> set mnts. prefix (mnt_path m') path \<longrightarrow>
      length (mnt_path m') \<le> length (mnt_path m))"
    using find_mount_longest [OF _ m] by blast
  show "\<exists>i < length mnts.
      record_mount mnts (Some path) = (mnt_path (mnts ! i), mnt_type (mnts ! i)) \<and>
      prefix (mnt_path (mnts ! i)) path \<and>
      (\<forall>j < i. \<not> prefix (mnt_path (mnts ! j)) path) \<and>
      (longest_first mnts \<longrightarrow>
         (\<forall>m' \<in> set mnts. prefix (mnt_path m') path \<longrightarrow>
            length (mnt_path m') \<le> length (mnt_path (mnts ! i))))"
    using i r l by (intro exI [of _ i]) simp
qed

text \<open>
  Witness of C9: a table from the longest path to the shortest gives the longest
  match, and a path under no mount point gives \<open>UNKNOWN\<close>.
\<close>

theorem record_mount_first_match_witness:
  "longest_first [\<lparr>mnt_path = ''/home'', mnt_type = ''nfs''\<rparr>, \<lparr>mnt_path = ''/'', mnt_type = ''ext4''\<rparr>]
   \<and> record_mount [\<lparr>mnt_path = ''/home'', mnt_type = ''nfs''\<rparr>, \<lparr>mnt_path = ''/'', mnt_type = ''ext4''\<rparr>]
       (Some ''/home/u'') = (''/home'', ''nfs'')
   \<and> record_mount [\<lparr>mnt_path = ''/home'', mnt_type = ''nfs''\<rparr>] (Some ''/tmp/x'')
       = (''UNKNOWN'', ''UNKNOWN'')"
  using record_mount_first_match
    [of "[\<lparr>mnt_path = ''/home'', mnt_type = ''nfs''\<rparr>, \<lparr>mnt_path = ''/'', mnt_type = ''ext4''\<rparr>]" "''/home/u''"]
    record_mount_first_match [of "[\<lparr>mnt_path = ''/home'', mnt_type = ''nfs''\<rparr>]" "''/tmp/x''"]
  by (simp add: longest_first_def record_mount_def strncmp_eq_def)

text \<open>
  Counterexample to C9 as stated: with the table \<open>/\<close>, \<open>/home\<close> in this order, the
  record \<open>/home/u\<close> gets the mount point \<open>/\<close>, although \<open>/home\<close> is a longer mount
  path that is a prefix of it.
\<close>

theorem record_mount_longest_counterexample:
  "record_mount [\<lparr>mnt_path = ''/'', mnt_type = ''ext4''\<rparr>, \<lparr>mnt_path = ''/home'', mnt_type = ''nfs''\<rparr>]
       (Some ''/home/u'') = (''/'', ''ext4'')
   \<and> prefix ''/home'' ''/home/u''
   \<and> length (fst (record_mount
        [\<lparr>mnt_path = ''/'', mnt_type = ''ext4''\<rparr>, \<lparr>mnt_path = ''/home'', mnt_type = ''nfs''\<rparr>]
        (Some ''/home/u''))) < length ''/home''"
  by (simp add: record_mount_def strncmp_eq_def)

subsection \<open>The module loop of main\<close>

lemma mpiio_accum_file_eq: "mpiio_accum_file = posix_accum_file"
  by (simp add: fun_eq_iff mpiio_accum_file_def posix_accum_file_def)

lemma stdio_accum_file_eq: "stdio_accum_file = posix_accum_file"
  by (simp add: fun_eq_iff stdio_accum_file_def posix_accum_file_def)

subsection \<open>The time accumulators after a record stream\<close>

lemma cumul_posix_accum_file:
  "cumul_io_total_time (posix_accum_file ops agg r h n) =
     d_add ops (cumul_io_total_time h) (io_time ops r)"
  by (simp add: posix_accum_file_def Let_def io_time_def split: option.splits)

lemma map_of_hash_store:
  "map_of (hash_store k v tbl) f =
     (if f = k \<and> map_of tbl k \<noteq> None then Some v else map_of tbl f)"
  by (induction tbl) auto

lemma keys_hash_store: "map fst (hash_store k v tbl) = map fst tbl"
  by (induction tbl) auto

text \<open>What finding or creating the entry of a file and folding a record into it leaves.\<close>

lemma cumul_of_find_or_add:
  "cumul_of (hash_store k (posix_accum_file ops agg r
       (case hash_find tbl k of None \<Rightarrow> new_entry ops k | Some h \<Rightarrow> h) n)
     (case hash_find tbl k of None \<Rightarrow> hash_add tbl (new_entry ops k) | Some h \<Rightarrow> tbl)) f
   = (if f = k
      then Some (d_add ops (case cumul_of tbl k of None \<Rightarrow> d_zero ops | Some c \<Rightarrow> c)
                   (io_time ops r))
      else cumul_of tbl f)"
proof (cases "hash_find tbl k")
  case None
  then have "map_of tbl k = None" by (simp add: hash_find_def)
  with None show ?thesis
    by (auto simp: cumul_of_def hash_find_def hash_add_def new_entry_def map_of_hash_store
        cumul_posix_accum_file map_add_def split: option.splits)
next
  case (Some h)
  then have "map_of tbl k = Some h" by (simp add: hash_find_def)
  with Some show ?thesis
    by (simp add: cumul_of_def hash_find_def map_of_hash_store cumul_posix_accum_file)
qed

lemma distinct_find_or_add:
  assumes "distinct (map fst tbl)"
  shows "distinct (map fst (hash_store k v
     (case hash_find tbl k of None \<Rightarrow> hash_add tbl (new_entry ops k) | Some h \<Rightarrow> tbl)))"
proof (cases "hash_find tbl k")
  case None
  then have "k \<notin> fst ` set tbl" by (simp add: hash_find_def map_of_eq_None_iff)
  with assms None show ?thesis
    by (simp add: keys_hash_store hash_add_def new_entry_def)
next
  case (Some h)
  with assms show ?thesis by (simp add: keys_hash_store)
qed

lemma posix_accum_perf_shared:
  "base_rec_rank r = -1 \<Longrightarrow>
     posix_accum_perf ops r p =
       Inr (p\<lparr>total_bytes := total_bytes p + (BYTES_READ r + BYTES_WRITTEN r),
          shared_io_total_time_by_slowest :=
            d_add ops (shared_io_total_time_by_slowest p) (F_SLOWEST_RANK_TIME r)\<rparr>)"
  by (simp add: posix_accum_perf_def Let_def)

lemma posix_accum_perf_rank:
  assumes "base_rec_rank r \<noteq> -1" and "0 \<le> base_rec_rank r" and "base_rec_rank r < int n"
    and "vectors_sized n p"
  shows "\<exists>q. posix_accum_perf ops r p = Inr q \<and> vectors_sized n q \<and>
           rank_cumul_io_total_time q = (rank_cumul_io_total_time p)
             [nat (base_rec_rank r) :=
                d_add ops (rank_cumul_io_total_time p ! nat (base_rec_rank r)) (io_time ops r)] \<and>
           shared_io_total_time_by_slowest q = shared_io_total_time_by_slowest p"
  using assms
  by (simp add: posix_accum_perf_def Let_def add_at_def vectors_sized_def io_time_def)

text \<open>What one aggregated record does to the time accumulators.\<close>

lemma accum_record_step:
  assumes i: "i = DARSHAN_POSIX_MOD \<or> i = DARSHAN_MPIIO_MOD \<or> i = DARSHAN_STDIO_MOD"
    and r: "base_rec_rank r = -1 \<or> (0 \<le> base_rec_rank r \<and> base_rec_rank r < int n)"
    and v: "vectors_sized n (pdata s)"
  shows "\<exists>s'. accum_record ops agg i nprocs r s = Inr s' \<and> vectors_sized n (pdata s') \<and>
           (\<forall>f. cumul_of (file_hash_table s') f =
              (if f = base_rec_id r
               then Some (d_add ops (case cumul_of (file_hash_table s) f of
                                       None \<Rightarrow> d_zero ops | Some c \<Rightarrow> c) (io_time ops r))
               else cumul_of (file_hash_table s) f)) \<and>
           (\<forall>k<n. rank_cumul_io_total_time (pdata s') ! k =
              (if base_rec_rank r = int k
               then d_add ops (rank_cumul_io_total_time (pdata s) ! k) (io_time ops r)
               else rank_cumul_io_total_time (pdata s) ! k)) \<and>
           shared_io_total_time_by_slowest (pdata s') =
             (if base_rec_rank r = -1
              then d_add ops (shared_io_total_time_by_slowest (pdata s)) (F_SLOWEST_RANK_TIME r)
              else shared_io_total_time_by_slowest (pdata s)) \<and>
           (distinct (map fst (file_hash_table s)) \<longrightarrow> distinct (map fst (file_hash_table s')))"
proof -
  have "\<exists>q. posix_accum_perf ops r (pdata s) = Inr q \<and> vectors_sized n q \<and>
           (\<forall>k<n. rank_cumul_io_total_time q ! k =
              (if base_rec_rank r = int k
               then d_add ops (rank_cumul_io_total_time (pdata s) ! k) (io_time ops r)
               else rank_cumul_io_total_time (pdata s) ! k)) \<and>
           shared_io_total_time_by_slowest q =
             (if base_rec_rank r = -1
              then d_add ops (shared_io_total_time_by_slowest (pdata s)) (F_SLOWEST_RANK_TIME r)
              else shared_io_total_time_by_slowest (pdata s))"
  proof (cases "base_rec_rank r = -1")
    case True
    with v show ?thesis by (simp add: posix_accum_perf_shared vectors_sized_def)
  next
    case False
    with r have b: "0 \<le> base_rec_rank r" "base_rec_rank r < int n" by auto
    from posix_accum_perf_rank [OF False b v, of ops] obtain q where
        q: "posix_accum_perf ops r (pdata s) = Inr q" "vectors_sized n q"
          "rank_cumul_io_total_time q = (rank_cumul_io_total_time (pdata s))
             [nat (base_rec_rank r) :=
                d_add ops (rank_cumul_io_total_time (pdata s) ! nat (base_rec_rank r)) (io_time ops r)]"
          "shared_io_total_time_by_slowest q = shared_io_total_time_by_slowest (pdata s)"
      by blast
    from v have len: "length (rank_cumul_io_total_time (pdata s)) = n"
      by (simp add: vectors_sized_def)
    have "\<forall>k<n. rank_cumul_io_total_time q ! k =
              (if base_rec_rank r = int k
               then d_add ops (rank_cumul_io_total_time (pdata s) ! k) (io_time ops r)
               else rank_cumul_io_total_time (pdata s) ! k)"
      using b len by (auto simp: q(3) nth_list_update)
    with q False show ?thesis by simp
  qed
  then obtain q where q: "posix_accum_perf ops r (pdata s) = Inr q" "vectors_sized n q"
      "\<forall>k<n. rank_cumul_io_total_time q ! k =
              (if base_rec_rank r = int k
               then d_add ops (rank_cumul_io_total_time (pdata s) ! k) (io_time ops r)
               else rank_cumul_io_total_time (pdata s) ! k)"
      "shared_io_total_time_by_slowest q =
             (if base_rec_rank r = -1
              then d_add ops (shared_io_total_time_by_slowest (pdata s)) (F_SLOWEST_RANK_TIME r)
              else shared_io_total_time_by_slowest (pdata s))"
    by blast
  from i q show ?thesis
    by (auto simp: accum_record_def Let_def mpiio_accum_perf_eq stdio_accum_perf_eq
        mpiio_accum_file_eq stdio_accum_file_eq cumul_of_find_or_add distinct_find_or_add)
qed

lemma accumulated_Cons: "accumulated ops a (x # xs) = accumulated ops (d_add ops a x) xs"
  by (simp add: accumulated_def)

lemma cumul_after_step:
  "cumul_after ops c (file_times ops f (r # recs)) =
     cumul_after ops
       (if f = base_rec_id r
        then Some (d_add ops (case c of None \<Rightarrow> d_zero ops | Some a \<Rightarrow> a) (io_time ops r))
        else c)
       (file_times ops f recs)"
  by (cases c) (auto simp: cumul_after_def file_times_def accumulated_Cons)

lemma rank_times_step:
  "accumulated ops a (rank_times ops k (r # recs)) =
     accumulated ops (if base_rec_rank r = k then d_add ops a (io_time ops r) else a)
       (rank_times ops k recs)"
  by (simp add: rank_times_def accumulated_Cons)

lemma shared_times_step:
  "accumulated ops a (shared_times (r # recs)) =
     accumulated ops (if base_rec_rank r = -1 then d_add ops a (F_SLOWEST_RANK_TIME r) else a)
       (shared_times recs)"
  by (simp add: shared_times_def shared_recs_def accumulated_Cons)

text \<open>
  C3, as amended. The claim: after a module's record stream is folded, the sum of
  \<open>cumul_io_total_time\<close> over the per-file accumulators equals the sum of the
  per-rank \<open>rank_cumul_io_total_time\<close> plus \<open>shared_io_total_time_by_slowest\<close>.
  What the record loop of an aggregated module leaves, from whatever state it starts
  in and in whatever arithmetic: every time accumulator holds the value it had with
  its addends of the stream added in stream order. The accumulator of file \<open>f\<close>
  receives the meta + read + write time of every record of \<open>f\<close> (and starts from
  \<open>0.0\<close> when the stream creates it); entry \<open>k\<close> of \<open>rank_cumul_io_total_time\<close>
  receives the meta + read + write time of every record of rank \<open>k\<close>;
  \<open>shared_io_total_time_by_slowest\<close> receives the slowest-rank time of every
  record of rank -1. So a per-rank record adds one and the same value on both sides
  of the claimed equation, and a record of rank -1 adds its meta + read + write time
  on the side of the files and its slowest-rank time on the other. The ranks of the
  stream are -1 or indices of the vectors.
\<close>

theorem record_loop_time_accumulators:
  assumes "i = DARSHAN_POSIX_MOD \<or> i = DARSHAN_MPIIO_MOD \<or> i = DARSHAN_STDIO_MOD"
    and "ranks_ok n recs" and "vectors_sized n (pdata s)"
  shows "\<exists>s'. record_loop ops agg i nprocs recs s = Inr s'
     \<and> vectors_sized n (pdata s')
     \<and> (\<forall>f. cumul_of (file_hash_table s') f =
          cumul_after ops (cumul_of (file_hash_table s) f) (file_times ops f recs))
     \<and> (\<forall>k<n. rank_cumul_io_total_time (pdata s') ! k =
          accumulated ops (rank_cumul_io_total_time (pdata s) ! k) (rank_times ops (int k) recs))
     \<and> shared_io_total_time_by_slowest (pdata s') =
         accumulated ops (shared_io_total_time_by_slowest (pdata s)) (shared_times recs)
     \<and> (distinct (map fst (file_hash_table s)) \<longrightarrow> distinct (map fst (file_hash_table s')))"
  using assms(2,3)
proof (induction recs arbitrary: s)
  case Nil
  show ?case
  proof (intro exI [of _ s] conjI allI impI)
    fix f
    show "cumul_of (file_hash_table s) f =
        cumul_after ops (cumul_of (file_hash_table s) f) (file_times ops f [])"
      by (cases "cumul_of (file_hash_table s) f")
        (simp_all add: cumul_after_def file_times_def accumulated_def)
  qed (use Nil in \<open>simp_all add: accumulated_def rank_times_def shared_times_def shared_recs_def\<close>)
next
  case (Cons r recs)
  from Cons.prems(1) have r1: "base_rec_rank r = -1 \<or> (0 \<le> base_rec_rank r \<and> base_rec_rank r < int n)"
    and rest: "ranks_ok n recs" by (simp_all add: ranks_ok_def)
  from accum_record_step [OF assms(1) r1 Cons.prems(2), of ops agg nprocs] obtain s1 where
      s1: "accum_record ops agg i nprocs r s = Inr s1" "vectors_sized n (pdata s1)"
        "\<And>f. cumul_of (file_hash_table s1) f =
              (if f = base_rec_id r
               then Some (d_add ops (case cumul_of (file_hash_table s) f of
                                       None \<Rightarrow> d_zero ops | Some c \<Rightarrow> c) (io_time ops r))
               else cumul_of (file_hash_table s) f)"
        "\<And>k. k < n \<Longrightarrow> rank_cumul_io_total_time (pdata s1) ! k =
              (if base_rec_rank r = int k
               then d_add ops (rank_cumul_io_total_time (pdata s) ! k) (io_time ops r)
               else rank_cumul_io_total_time (pdata s) ! k)"
        "shared_io_total_time_by_slowest (pdata s1) =
             (if base_rec_rank r = -1
              then d_add ops (shared_io_total_time_by_slowest (pdata s)) (F_SLOWEST_RANK_TIME r)
              else shared_io_total_time_by_slowest (pdata s))"
        "distinct (map fst (file_hash_table s)) \<longrightarrow> distinct (map fst (file_hash_table s1))"
    by blast
  from Cons.IH [OF rest s1(2)] obtain s' where
      s': "record_loop ops agg i nprocs recs s1 = Inr s'" "vectors_sized n (pdata s')"
        "\<And>f. cumul_of (file_hash_table s') f =
          cumul_after ops (cumul_of (file_hash_table s1) f) (file_times ops f recs)"
        "\<And>k. k < n \<Longrightarrow> rank_cumul_io_total_time (pdata s') ! k =
          accumulated ops (rank_cumul_io_total_time (pdata s1) ! k) (rank_times ops (int k) recs)"
        "shared_io_total_time_by_slowest (pdata s') =
         accumulated ops (shared_io_total_time_by_slowest (pdata s1)) (shared_times recs)"
        "distinct (map fst (file_hash_table s1)) \<longrightarrow> distinct (map fst (file_hash_table s'))"
    by blast
  have loop: "record_loop ops agg i nprocs (r # recs) s = Inr s'"
    using assms(1) s1(1) s'(1) by auto
  show ?case
  proof (intro exI [of _ s'] conjI allI impI)
    show "record_loop ops agg i nprocs (r # recs) s = Inr s'" by (rule loop)
    show "vectors_sized n (pdata s')" by (rule s'(2))
  next
    fix f
    show "cumul_of (file_hash_table s') f =
        cumul_after ops (cumul_of (file_hash_table s) f) (file_times ops f (r # recs))"
      unfolding cumul_after_step s'(3) s1(3) by simp
  next
    fix k
    assume k: "k < n"
    show "rank_cumul_io_total_time (pdata s') ! k =
        accumulated ops (rank_cumul_io_total_time (pdata s) ! k) (rank_times ops (int k) (r # recs))"
      unfolding rank_times_step s'(4) [OF k] s1(4) [OF k] by simp
  next
    show "shared_io_total_time_by_slowest (pdata s') =
        accumulated ops (shared_io_total_time_by_slowest (pdata s)) (shared_times (r # recs))"
      unfolding shared_times_step s'(5) s1(5) by simp
  next
    assume "distinct (map fst (file_hash_table s))"
    with s1(6) s'(6) show "distinct (map fst (file_hash_table s'))" by simp
  qed
qed

text \<open>
  Witness of C3, from the state that \<^verbatim>\<open>main\<close> sets up for two processes: two
  per-rank records of file 7 and a rank -1 record of file 8 with 3 seconds of meta
  time and a slowest-rank time of 1 second.
\<close>

theorem record_loop_time_accumulators_witness:
  "ranks_ok 2 [mk_file exact_arith 7 0 1 1, mk_file exact_arith 7 1 2 2,
       mk_file exact_arith 8 (-1) 3 1]
   \<and> vectors_sized 2 (pdata (init_state exact_arith 2))
   \<and> (\<exists>s'. record_loop exact_arith (example_aggs exact_arith) DARSHAN_POSIX_MOD 2
          [mk_file exact_arith 7 0 1 1, mk_file exact_arith 7 1 2 2,
           mk_file exact_arith 8 (-1) 3 1] (init_state exact_arith 2) = Inr s'
        \<and> cumul_of (file_hash_table s') 7 = Some 3
        \<and> cumul_of (file_hash_table s') 8 = Some 3
        \<and> cumul_of (file_hash_table s') 9 = None
        \<and> rank_cumul_io_total_time (pdata s') ! 0 = 1
        \<and> rank_cumul_io_total_time (pdata s') ! 1 = 2
        \<and> shared_io_total_time_by_slowest (pdata s') = 1
        \<and> distinct (map fst (file_hash_table s')))"
proof -
  let ?recs = "[mk_file exact_arith 7 0 1 1, mk_file exact_arith 7 1 2 2,
       mk_file exact_arith 8 (-1) 3 1]"
  have n: "vector_len 2 = 2"
    by (simp add: vector_len_def vector_bytes_def sizeof_double_def size_t_of_def)
  have ok: "ranks_ok 2 ?recs"
    by (simp add: ranks_ok_def mk_file_def)
  have v: "vectors_sized 2 (pdata (init_state exact_arith 2))"
    by (simp add: init_state_def zero_perf_def vectors_sized_def n)
  have start: "\<And>f. cumul_of (file_hash_table (init_state exact_arith 2)) f = None"
      "rank_cumul_io_total_time (pdata (init_state exact_arith 2)) = [0, 0]"
      "shared_io_total_time_by_slowest (pdata (init_state exact_arith 2)) = 0"
      "distinct (map fst (file_hash_table (init_state exact_arith 2)))"
    by (simp_all add: init_state_def zero_perf_def cumul_of_def hash_find_def n exact_arith_def
        numeral_2_eq_2)
  have t: "file_times exact_arith 7 ?recs = [1, 2]" "file_times exact_arith 8 ?recs = [3]"
      "file_times exact_arith 9 ?recs = []"
      "rank_times exact_arith (int 0) ?recs = [1]" "rank_times exact_arith (int 1) ?recs = [2]"
      "shared_times ?recs = [1]"
    by (simp_all add: file_times_def rank_times_def shared_times_def shared_recs_def
        mk_file_def io_time_def exact_arith_def)
  from record_loop_time_accumulators [of DARSHAN_POSIX_MOD 2 ?recs "init_state exact_arith 2"
      exact_arith "example_aggs exact_arith" 2, OF _ ok v]
  obtain s' where s': "record_loop exact_arith (example_aggs exact_arith) DARSHAN_POSIX_MOD 2
          ?recs (init_state exact_arith 2) = Inr s'"
      "\<And>f. cumul_of (file_hash_table s') f =
          cumul_after exact_arith (cumul_of (file_hash_table (init_state exact_arith 2)) f)
            (file_times exact_arith f ?recs)"
      "\<And>k. k < 2 \<Longrightarrow> rank_cumul_io_total_time (pdata s') ! k =
          accumulated exact_arith (rank_cumul_io_total_time (pdata (init_state exact_arith 2)) ! k)
            (rank_times exact_arith (int k) ?recs)"
      "shared_io_total_time_by_slowest (pdata s') =
         accumulated exact_arith (shared_io_total_time_by_slowest (pdata (init_state exact_arith 2)))
           (shared_times ?recs)"
      "distinct (map fst (file_hash_table s'))"
    using start(4) by auto
  have c: "cumul_of (file_hash_table s') 7 = Some 3" "cumul_of (file_hash_table s') 8 = Some 3"
      "cumul_of (file_hash_table s') 9 = None"
    unfolding s'(2) start(1) t by (simp_all add: cumul_after_def accumulated_def exact_arith_def)
  have r: "rank_cumul_io_total_time (pdata s') ! 0 = 1" "rank_cumul_io_total_time (pdata s') ! 1 = 2"
    using s'(3) [of 0] s'(3) [of 1] unfolding start(2) t
    by (simp_all add: accumulated_def exact_arith_def)
  have sh: "shared_io_total_time_by_slowest (pdata s') = 1"
    unfolding s'(4) start(3) t by (simp add: accumulated_def exact_arith_def)
  from s'(1) c r sh s'(5) have
    "\<exists>s'. record_loop exact_arith (example_aggs exact_arith) DARSHAN_POSIX_MOD 2
          ?recs (init_state exact_arith 2) = Inr s'
        \<and> cumul_of (file_hash_table s') 7 = Some 3
        \<and> cumul_of (file_hash_table s') 8 = Some 3
        \<and> cumul_of (file_hash_table s') 9 = None
        \<and> rank_cumul_io_total_time (pdata s') ! 0 = 1
        \<and> rank_cumul_io_total_time (pdata s') ! 1 = 2
        \<and> shared_io_total_time_by_slowest (pdata s') = 1
        \<and> distinct (map fst (file_hash_table s'))"
    by blast
  with ok v show ?thesis by blast
qed

text \<open>
  Counterexample to C3 as stated: one file shared by two processes, each of which spent
  one second in it: the rank -1 record carries 2 seconds of meta + read + write time
  and a slowest-rank time of 1 second. The sum over the files is 2, the sum over the
  ranks plus \<open>shared_io_total_time_by_slowest\<close> is 1.
\<close>

theorem time_conservation_counterexample:
  "\<not> isl (record_loop exact_arith (example_aggs exact_arith) DARSHAN_POSIX_MOD 2
         [mk_file exact_arith 7 (-1) 2 1] (init_state exact_arith 2))
   \<and> sum_cumul (file_hash_table (projr
         (record_loop exact_arith (example_aggs exact_arith) DARSHAN_POSIX_MOD 2
            [mk_file exact_arith 7 (-1) 2 1] (init_state exact_arith 2)))) = 2
   \<and> sum_list (rank_cumul_io_total_time (pdata (projr
         (record_loop exact_arith (example_aggs exact_arith) DARSHAN_POSIX_MOD 2
            [mk_file exact_arith 7 (-1) 2 1] (init_state exact_arith 2))))) +
       shared_io_total_time_by_slowest (pdata (projr
         (record_loop exact_arith (example_aggs exact_arith) DARSHAN_POSIX_MOD 2
            [mk_file exact_arith 7 (-1) 2 1] (init_state exact_arith 2)))) = 1"
  by (simp add: accum_record_def posix_accum_perf_def posix_accum_file_def init_state_def
      zero_perf_def mk_file_def Let_def hash_find_def hash_add_def new_entry_def sum_cumul_def
      vector_len_def vector_bytes_def sizeof_double_def size_t_of_def exact_arith_def
      numeral_2_eq_2)

subsection \<open>The reset between modules\<close>

lemma record_loop_other_module:
  "i \<noteq> DARSHAN_POSIX_MOD \<Longrightarrow> i \<noteq> DARSHAN_MPIIO_MOD \<Longrightarrow> i \<noteq> DARSHAN_STDIO_MOD \<Longrightarrow>
     record_loop ops agg i nprocs recs s = Inr s"
  by (induction recs) simp_all

text \<open>
  When the record stream of a module ends without a parse error, the iteration leaves
  the performance accumulator either zeroed (the module was aggregated and the reset
  ran) or as it was (nothing was folded).
\<close>

lemma parse_module_normal_end:
  assumes "mod_end m = END_OF_RECORDS" and "parse_module ops agg msk nprocs m s = Inr s'"
  shows "pdata s' = zero_perf ops nprocs \<or> pdata s' = pdata s"
proof (cases "mod_id m = DARSHAN_POSIX_MOD \<or> mod_id m = DARSHAN_MPIIO_MOD \<or> mod_id m = DARSHAN_STDIO_MOD")
  case True
  with assms show ?thesis
    by (auto simp: parse_module_def end_of_module_def reset_module_def Let_def
        split: if_splits sum.splits)
next
  case False
  then have "\<And>t. record_loop ops agg (mod_id m) nprocs (mod_records m) t = Inr t"
    by (simp add: record_loop_other_module)
  with assms False show ?thesis
    by (auto simp: parse_module_def end_of_module_def Let_def split: if_splits)
qed

text \<open>
  C8. The claim: the per-rank timing vectors are zeroed before any record of the next
  module is folded, also when the previous module was aborted by a decode error. In
  the code \<^verbatim>\<open>if(ret == -1) continue;\<close> comes before the reset: after a POSIX module
  whose stream gives one record of rank 0 (1 second) and then a parse error, the
  vectors still hold that second (and the hash table the file), and an MPI-IO module
  that follows with one record of rank 0 (2 seconds) is reported with a slowest rank
  time of 3 seconds; alone it is reported with 2.
\<close>

theorem parse_error_skips_reset:
  "(\<exists>s. parse_module exact_arith (example_aggs exact_arith) OPTION_PERF 1
          (mk_mod DARSHAN_POSIX_MOD [mk_file exact_arith 7 0 1 1] PARSE_ERROR)
          (init_state exact_arith 1) = Inr s
        \<and> rank_cumul_io_total_time (pdata s) = [1]
        \<and> rank_cumul_md_only_time (pdata s) = [1]
        \<and> map fst (file_hash_table s) = [7])
   \<and> (\<exists>s. parse_modules exact_arith (example_aggs exact_arith) OPTION_PERF 1
          [mk_mod DARSHAN_POSIX_MOD [mk_file exact_arith 7 0 1 1] PARSE_ERROR,
           mk_mod DARSHAN_MPIIO_MOD [mk_file exact_arith 9 0 2 2] END_OF_RECORDS]
          (init_state exact_arith 1) = Inr s
        \<and> map slowest_rank_io_total_time (perf_printed s) = [3])
   \<and> (\<exists>s. parse_modules exact_arith (example_aggs exact_arith) OPTION_PERF 1
          [mk_mod DARSHAN_MPIIO_MOD [mk_file exact_arith 9 0 2 2] END_OF_RECORDS]
          (init_state exact_arith 1) = Inr s
        \<and> map slowest_rank_io_total_time (perf_printed s) = [2])"
  by (simp add: parse_module_def end_of_module_def reset_module_def mk_mod_def
      accum_record_def posix_accum_perf_def mpiio_accum_perf_def add_at_def
      calc_perf_def calc_perf_step_def agg_guard_def init_state_def
      zero_perf_def mk_file_def Let_def hash_find_def hash_add_def new_entry_def
      OPTION_PERF_def vector_len_def vector_bytes_def sizeof_double_def size_t_of_def
      exact_arith_def)

subsection \<open>The vectors keep their allocation\<close>

text \<open>
  In every state that the module loop of \<^verbatim>\<open>main\<close> reaches, the three vectors have the
  \<open>vector_len nprocs\<close> elements they were allocated with: the folds and
  \<^verbatim>\<open>calc_perf\<close> write single entries, and the reset zeroes the vectors in place.
\<close>

lemma posix_accum_perf_sized:
  "posix_accum_perf ops r p = Inr q \<Longrightarrow> vectors_sized n p \<Longrightarrow> vectors_sized n q"
  by (auto simp: posix_accum_perf_def Let_def add_at_def vectors_sized_def
      split: if_splits sum.splits)

lemma accum_record_sized:
  "accum_record ops agg i nprocs r s = Inr s' \<Longrightarrow> vectors_sized n (pdata s) \<Longrightarrow>
     vectors_sized n (pdata s')"
  by (auto simp: accum_record_def Let_def mpiio_accum_perf_eq stdio_accum_perf_eq
      split: if_splits sum.splits dest: posix_accum_perf_sized)

lemma record_loop_sized:
  "record_loop ops agg i nprocs recs s = Inr s' \<Longrightarrow> vectors_sized n (pdata s) \<Longrightarrow>
     vectors_sized n (pdata s')"
proof (induction recs arbitrary: s)
  case Nil
  then show ?case by simp
next
  case (Cons r recs)
  show ?case
  proof (cases "i \<noteq> DARSHAN_POSIX_MOD \<and> i \<noteq> DARSHAN_MPIIO_MOD \<and> i \<noteq> DARSHAN_STDIO_MOD")
    case True
    with Cons show ?thesis by simp
  next
    case False
    with Cons.prems(1) obtain s1 where s1: "accum_record ops agg i nprocs r s = Inr s1"
        "record_loop ops agg i nprocs recs s1 = Inr s'"
      by (auto split: sum.splits)
    from accum_record_sized [OF s1(1) Cons.prems(2)] Cons.IH [OF s1(2)] show ?thesis by simp
  qed
qed

lemma calc_perf_step_sized:
  "calc_perf_step ops i p = Inr q \<Longrightarrow> vectors_sized n p \<Longrightarrow> vectors_sized n q"
  by (auto simp: calc_perf_step_def vectors_sized_def split: if_splits)

lemma calc_perf_loop_sized:
  "calc_perf_loop ops idx p = Inr q \<Longrightarrow> vectors_sized n p \<Longrightarrow> vectors_sized n q"
proof (induction idx arbitrary: p)
  case Nil
  then show ?case by simp
next
  case (Cons i idx)
  from Cons.prems(1) obtain p1 where p1: "calc_perf_step ops i p = Inr p1"
      "calc_perf_loop ops idx p1 = Inr q"
    by (auto split: sum.splits)
  from calc_perf_step_sized [OF p1(1) Cons.prems(2)] Cons.IH [OF p1(2)] show ?case by simp
qed

lemma zero_perf_sized: "vectors_sized (vector_len nprocs) (zero_perf ops nprocs)"
  by (simp add: vectors_sized_def zero_perf_def)

lemma parse_module_sized:
  assumes "parse_module ops agg msk nprocs m s = Inr s'"
    and "vectors_sized (vector_len nprocs) (pdata s)"
  shows "vectors_sized (vector_len nprocs) (pdata s')"
proof -
  let ?s1 = "if mod_len m = 0 then s\<lparr>empty_mods := empty_mods s + 1\<rparr> else s"
  have v1: "vectors_sized (vector_len nprocs) (pdata ?s1)" using assms(2) by simp
  have e: "\<And>t t'. end_of_module ops msk nprocs m t = Inr t' \<Longrightarrow>
      vectors_sized (vector_len nprocs) (pdata t) \<Longrightarrow> vectors_sized (vector_len nprocs) (pdata t')"
    by (auto simp: end_of_module_def reset_module_def zero_perf_sized
        split: if_splits sum.splits)
  show ?thesis
  proof (cases "s' = ?s1")
    case True
    with v1 show ?thesis by simp
  next
    case False
    with assms(1) obtain s2 where s2: "record_loop ops agg (mod_id m) nprocs (mod_records m) ?s1 = Inr s2"
        "end_of_module ops msk nprocs m s2 = Inr s'"
      by (auto simp: parse_module_def Let_def split: if_splits sum.splits)
    from e [OF s2(2) record_loop_sized [OF s2(1) v1]] show ?thesis .
  qed
qed

lemma parse_modules_sized:
  "parse_modules ops agg msk nprocs mods s = Inr s' \<Longrightarrow>
     vectors_sized (vector_len nprocs) (pdata s) \<Longrightarrow> vectors_sized (vector_len nprocs) (pdata s')"
proof (induction mods arbitrary: s)
  case Nil
  then show ?case by simp
next
  case (Cons m mods)
  from Cons.prems(1) obtain s1 where s1: "parse_module ops agg msk nprocs m s = Inr s1"
      "parse_modules ops agg msk nprocs mods s1 = Inr s'"
    by (auto split: sum.splits)
  from Cons.IH [OF s1(2) parse_module_sized [OF s1(1) Cons.prems(2)]] show ?case .
qed

lemma reachable_vectors_sized:
  "parse_modules ops agg msk nprocs mods (init_state ops nprocs) = Inr s \<Longrightarrow>
     vectors_sized (vector_len nprocs) (pdata s)"
  using parse_modules_sized [of ops agg msk nprocs mods "init_state ops nprocs" s]
  by (simp add: init_state_def zero_perf_sized)

subsection \<open>DXT: the conversions do not wrap\<close>

lemma size_t_of_id: "0 \<le> x \<Longrightarrow> x < 2 ^ 64 \<Longrightarrow> size_t_of x = x"
  by (simp add: size_t_of_def)

lemma int_of_id: "- (2 ^ 31) \<le> x \<Longrightarrow> x < 2 ^ 31 \<Longrightarrow> int_of x = x"
  by (simp add: int_of_def)

lemma le_of_mult_le:
  fixes a s m :: int
  assumes "0 \<le> a" and "1 \<le> s" and "a * s \<le> m"
  shows "a \<le> m"
proof -
  have "a * 1 \<le> a * s" using assms(1,2) by (intro mult_left_mono) simp_all
  with assms(3) show ?thesis by simp
qed

lemma mult_lt_bound:
  fixes a s :: int
  assumes "0 \<le> a" and "a \<le> 2 ^ 23" and "0 < s" and "s < 2 ^ 32"
  shows "0 \<le> a * s" and "a * s < 2 ^ 64"
proof -
  show "0 \<le> a * s" using assms by simp
  have "a * s \<le> 2 ^ 23 * s" using assms by (intro mult_right_mono) simp_all
  also have "\<dots> < 2 ^ 23 * 2 ^ 32" using assms by simp
  finally show "a * s < 2 ^ 64" by simp
qed

lemma granted_inc_bounds:
  assumes "0 < sizeof_segment_info sz" and "0 \<le> avail" and "0 \<le> remaining"
  shows "0 \<le> granted_inc sz avail remaining"
    and "granted_inc sz avail remaining * sizeof_segment_info sz \<le> remaining"
proof -
  have d: "0 \<le> remaining div sizeof_segment_info sz"
    using assms by (simp add: pos_imp_zdiv_nonneg_iff)
  have "remaining div sizeof_segment_info sz * sizeof_segment_info sz +
      remaining mod sizeof_segment_info sz = remaining"
    by simp
  moreover have "0 \<le> remaining mod sizeof_segment_info sz"
    using assms(1) by simp
  ultimately have m: "remaining div sizeof_segment_info sz * sizeof_segment_info sz \<le> remaining"
    by linarith
  show "0 \<le> granted_inc sz avail remaining"
    using d assms(2) by (simp add: granted_inc_def IO_TRACE_BUF_SIZE_def)
  show "granted_inc sz avail remaining * sizeof_segment_info sz \<le> remaining"
    using m by (simp add: granted_inc_def)
qed

lemma granted_inc_zero:
  assumes "0 < sizeof_segment_info sz" and "0 \<le> avail" and "0 \<le> remaining"
    and "remaining < sizeof_segment_info sz"
  shows "granted_inc sz avail remaining = 0"
proof -
  have "1 \<le> (if avail = 0 then IO_TRACE_BUF_SIZE else avail)"
    using assms(2) by (simp add: IO_TRACE_BUF_SIZE_def)
  then have "1 * sizeof_segment_info sz \<le> (if avail = 0 then IO_TRACE_BUF_SIZE else avail) * sizeof_segment_info sz"
    using assms(1) by (intro mult_right_mono) simp_all
  with assms(4) have "(if avail = 0 then IO_TRACE_BUF_SIZE else avail) * sizeof_segment_info sz > remaining"
    by simp
  then show ?thesis
    using assms by (simp add: granted_inc_def)
qed

lemma buf_len_nonneg: "0 \<le> buf_len traces"
  by (simp add: buf_len_def split: option.splits)

text \<open>
  The facts about sizes that the budget invariant gives for one record reference.
\<close>

lemma ref_ranges:
  assumes sz: "sizes_ok sz" and ok: "ref_ok rec_ref" and r0: "0 \<le> remaining"
    and b: "ref_bytes sz rec_ref + remaining \<le> DXT_IO_TRACE_MEM_MAX"
  shows "0 \<le> write_available_buf rec_ref" and "write_available_buf rec_ref \<le> 2 ^ 22"
    and "0 \<le> read_available_buf rec_ref" and "read_available_buf rec_ref \<le> 2 ^ 22"
    and "remaining \<le> 2 ^ 22"
proof -
  let ?seg = "sizeof_segment_info sz"
  have seg: "1 \<le> ?seg" and rec: "0 < sizeof_dxt_file_record sz"
    using sz by (simp_all add: sizes_ok_def)
  have w0: "0 \<le> write_available_buf rec_ref" and r0': "0 \<le> read_available_buf rec_ref"
    using ok buf_len_nonneg [of "write_traces (file_rec rec_ref)"]
      buf_len_nonneg [of "read_traces (file_rec rec_ref)"]
    by (simp_all add: ref_ok_def)
  have eq: "ref_bytes sz rec_ref = sizeof_dxt_file_record sz +
      (write_available_buf rec_ref * ?seg + read_available_buf rec_ref * ?seg)"
    using ok by (simp add: ref_bytes_def ref_ok_def algebra_simps)
  have wn: "0 \<le> write_available_buf rec_ref * ?seg" and rn: "0 \<le> read_available_buf rec_ref * ?seg"
    using w0 r0' seg by simp_all
  have max: "DXT_IO_TRACE_MEM_MAX = 2 ^ 22" by (simp add: DXT_IO_TRACE_MEM_MAX_def)
  from eq b r0 rec rn have "write_available_buf rec_ref * ?seg \<le> 2 ^ 22"
    unfolding max by linarith
  from le_of_mult_le [OF w0 seg this] show "write_available_buf rec_ref \<le> 2 ^ 22" .
  from eq b r0 rec wn have "read_available_buf rec_ref * ?seg \<le> 2 ^ 22"
    unfolding max by linarith
  from le_of_mult_le [OF r0' seg this] show "read_available_buf rec_ref \<le> 2 ^ 22" .
  from eq b rec wn rn show "remaining \<le> 2 ^ 22" unfolding max by linarith
  show "0 \<le> write_available_buf rec_ref" by (rule w0)
  show "0 \<le> read_available_buf rec_ref" by (rule r0')
qed

text \<open>
  The arithmetic of a growth request, without the conversions: for a buffer size
  \<open>avail\<close> and a budget \<open>remaining\<close> within the bounds that the invariant gives.
\<close>

lemma growth_arith:
  assumes seg: "0 < seg" "seg < 2 ^ 32"
    and a: "0 \<le> avail" "avail \<le> 2 ^ 22" and r: "0 \<le> remaining" "remaining \<le> 2 ^ 22"
    and segdef: "seg = sizeof_segment_info sz"
  defines "inc0 \<equiv> (if avail = 0 then IO_TRACE_BUF_SIZE else avail)"
  defines "g \<equiv> granted_inc sz avail remaining"
  shows "(if size_t_of (size_t_of inc0 * seg) > size_t_of remaining
          then int_of (size_t_of remaining div seg) else inc0) = g"
    and "int_of (size_t_of (size_t_of remaining - size_t_of (size_t_of g * seg))) = remaining - g * seg"
    and "int_of (avail + g) = avail + g"
    and "size_t_of (size_t_of (avail + g) * seg) div seg = avail + g"
    and "0 \<le> g" and "g * seg \<le> remaining"
proof -
  have i0: "0 \<le> inc0" "inc0 \<le> 2 ^ 23"
    using a by (simp_all add: inc0_def IO_TRACE_BUF_SIZE_def)
  have sr: "size_t_of remaining = remaining"
    using r by (intro size_t_of_id) simp_all
  have si: "size_t_of inc0 = inc0"
    using i0 by (intro size_t_of_id) simp_all
  have sm: "size_t_of (inc0 * seg) = inc0 * seg"
    using mult_lt_bound [OF i0 seg] by (intro size_t_of_id) simp_all
  have d0: "0 \<le> remaining div seg"
    using r seg by (simp add: pos_imp_zdiv_nonneg_iff)
  have "remaining div seg * seg + remaining mod seg = remaining" by simp
  moreover have "0 \<le> remaining mod seg" using seg by simp
  ultimately have "remaining div seg * seg \<le> remaining" by linarith
  from le_of_mult_le [OF d0 _ this] seg have d1: "remaining div seg \<le> remaining" by simp
  have id: "int_of (remaining div seg) = remaining div seg"
    using d0 d1 r by (intro int_of_id) simp_all
  have "(if size_t_of (size_t_of inc0 * seg) > size_t_of remaining
          then int_of (size_t_of remaining div seg) else inc0) =
        (if inc0 * seg > remaining then remaining div seg else inc0)"
    by (simp only: sr si sm id)
  also have "\<dots> = g"
    by (simp add: g_def granted_inc_def inc0_def segdef)
  finally show "(if size_t_of (size_t_of inc0 * seg) > size_t_of remaining
          then int_of (size_t_of remaining div seg) else inc0) = g" .
  have gb: "0 \<le> g" "g * seg \<le> remaining"
    using granted_inc_bounds [of sz avail remaining] seg a r
    by (simp_all add: g_def segdef)
  show "0 \<le> g" "g * seg \<le> remaining" by (rule gb)+
  from le_of_mult_le [OF gb(1) _ gb(2)] seg have g2: "g \<le> remaining" by simp
  have gs: "0 \<le> g * seg" using gb(1) seg by simp
  have sg: "size_t_of g = g"
    using gb(1) g2 r by (intro size_t_of_id) simp_all
  have sgs: "size_t_of (g * seg) = g * seg"
    using gs gb(2) r by (intro size_t_of_id) simp_all
  have sd: "size_t_of (remaining - g * seg) = remaining - g * seg"
    using gs gb(2) r by (intro size_t_of_id) simp_all
  have idd: "int_of (remaining - g * seg) = remaining - g * seg"
    using gs gb(2) r by (intro int_of_id) simp_all
  show "int_of (size_t_of (size_t_of remaining - size_t_of (size_t_of g * seg))) = remaining - g * seg"
    by (simp add: sr sg sgs sd idd)
  have ag: "0 \<le> avail + g" "avail + g \<le> 2 ^ 23"
    using a gb(1) g2 r by simp_all
  show "int_of (avail + g) = avail + g"
    using ag by (intro int_of_id) simp_all
  have sag: "size_t_of (avail + g) = avail + g"
    using ag by (intro size_t_of_id) simp_all
  have sags: "size_t_of ((avail + g) * seg) = (avail + g) * seg"
    using mult_lt_bound [OF ag seg] by (intro size_t_of_id) simp_all
  show "size_t_of (size_t_of (avail + g) * seg) div seg = avail + g"
    using seg by (simp add: sag sags)
qed

lemma check_wr_trace_buf_exact:
  assumes sz: "sizes_ok sz" and ok: "ref_ok rec_ref" and r0: "0 \<le> remaining"
    and b: "ref_bytes sz rec_ref + remaining \<le> DXT_IO_TRACE_MEM_MAX"
  shows "check_wr_trace_buf sz env rec_ref remaining =
     (if write_count (file_rec rec_ref) \<ge> write_available_buf rec_ref \<and>
         granted_inc sz (write_available_buf rec_ref) remaining > 0
      then (rec_ref\<lparr>file_rec := (file_rec rec_ref)\<lparr>write_traces :=
               realloc_traces (realloc_ok env) (write_traces (file_rec rec_ref))
                 (nat (write_available_buf rec_ref +
                       granted_inc sz (write_available_buf rec_ref) remaining))\<rparr>,
             write_available_buf := write_available_buf rec_ref +
               granted_inc sz (write_available_buf rec_ref) remaining\<rparr>,
            remaining - granted_inc sz (write_available_buf rec_ref) remaining * sizeof_segment_info sz)
      else (rec_ref, remaining))"
proof -
  let ?seg = "sizeof_segment_info sz"
  let ?avail = "write_available_buf rec_ref"
  let ?count = "write_count (file_rec rec_ref)"
  note rg = ref_ranges [OF sz ok r0 b]
  have seg: "0 < ?seg" "?seg < 2 ^ 32" using sz by (simp_all add: sizes_ok_def)
  have c: "0 \<le> ?count" "?count \<le> ?avail" using ok by (simp_all add: ref_ok_def)
  have ia: "int_of ?avail = ?avail" using rg(1,2) by (intro int_of_id) simp_all
  have ic: "int_of ?count = ?count" using c rg(2) by (intro int_of_id) simp_all
  note ga = growth_arith [OF seg rg(1,2) r0 rg(5) refl]
  show ?thesis
    unfolding check_wr_trace_buf_def Let_def ia ic ga(1) ga(2) ga(3) ga(4)
    using ga(5) by auto
qed

lemma check_rd_trace_buf_exact:
  assumes sz: "sizes_ok sz" and ok: "ref_ok rec_ref" and r0: "0 \<le> remaining"
    and b: "ref_bytes sz rec_ref + remaining \<le> DXT_IO_TRACE_MEM_MAX"
  shows "check_rd_trace_buf sz env rec_ref remaining =
     (if read_count (file_rec rec_ref) \<ge> read_available_buf rec_ref \<and>
         granted_inc sz (read_available_buf rec_ref) remaining > 0
      then (rec_ref\<lparr>file_rec := (file_rec rec_ref)\<lparr>read_traces :=
               realloc_traces (realloc_ok env) (read_traces (file_rec rec_ref))
                 (nat (read_available_buf rec_ref +
                       granted_inc sz (read_available_buf rec_ref) remaining))\<rparr>,
             read_available_buf := read_available_buf rec_ref +
               granted_inc sz (read_available_buf rec_ref) remaining\<rparr>,
            remaining - granted_inc sz (read_available_buf rec_ref) remaining * sizeof_segment_info sz)
      else (rec_ref, remaining))"
proof -
  let ?seg = "sizeof_segment_info sz"
  let ?avail = "read_available_buf rec_ref"
  let ?count = "read_count (file_rec rec_ref)"
  note rg = ref_ranges [OF sz ok r0 b]
  have seg: "0 < ?seg" "?seg < 2 ^ 32" using sz by (simp_all add: sizes_ok_def)
  have c: "0 \<le> ?count" "?count \<le> ?avail" using ok by (simp_all add: ref_ok_def)
  have ia: "int_of ?avail = ?avail" using rg(3,4) by (intro int_of_id) simp_all
  have ic: "int_of ?count = ?count" using c rg(4) by (intro int_of_id) simp_all
  note ga = growth_arith [OF seg rg(3,4) r0 rg(5) refl]
  show ?thesis
    unfolding check_rd_trace_buf_def Let_def ia ic ga(1) ga(2) ga(3) ga(4)
    using ga(5) by auto
qed

subsection \<open>DXT: one trace call on one record reference\<close>

lemma keeps_full_refl: "keeps_full sz remaining rec_ref rec_ref"
  by (simp add: keeps_full_def)

lemma buf_len_realloc:
  "buf_len (realloc_traces True old n) = int n"
  by (auto simp: realloc_traces_def buf_len_def min_def split: option.splits)

text \<open>
  The growth check followed by the append, for the write direction: when the call
  returns, the reference is consistent again, and the bytes it holds have grown by
  what the budget has lost.
\<close>

lemma write_step:
  assumes sz: "sizes_ok sz" and ok: "ref_ok rec_ref" and r0: "0 \<le> remaining"
    and b: "ref_bytes sz rec_ref + remaining \<le> DXT_IO_TRACE_MEM_MAX"
    and a: "append_write seg (fst (check_wr_trace_buf sz env rec_ref remaining)) = Inr rec_ref'"
  shows "ref_ok rec_ref'"
    and "0 \<le> snd (check_wr_trace_buf sz env rec_ref remaining)"
    and "snd (check_wr_trace_buf sz env rec_ref remaining) \<le> remaining"
    and "ref_bytes sz rec_ref' + snd (check_wr_trace_buf sz env rec_ref remaining) =
           ref_bytes sz rec_ref + remaining"
    and "keeps_full sz remaining rec_ref rec_ref'"
proof -
  let ?seg = "sizeof_segment_info sz"
  let ?g = "granted_inc sz (write_available_buf rec_ref) remaining"
  note ex = check_wr_trace_buf_exact [OF sz ok r0 b, of env]
  note rg = ref_ranges [OF sz ok r0 b]
  have seg: "0 < ?seg" using sz by (simp add: sizes_ok_def)
  have g: "0 \<le> ?g" "?g * ?seg \<le> remaining"
    using granted_inc_bounds [OF seg rg(1) r0] by simp_all
  have gs: "0 \<le> ?g * ?seg" using g(1) seg by simp
  have gz: "remaining < ?seg \<Longrightarrow> ?g = 0"
    using granted_inc_zero [OF seg rg(1) r0] by simp
  show "0 \<le> snd (check_wr_trace_buf sz env rec_ref remaining)"
    using g(2) r0 by (simp add: ex)
  show "snd (check_wr_trace_buf sz env rec_ref remaining) \<le> remaining"
    using gs by (simp add: ex)
  have all: "ref_ok rec_ref' \<and>
      ref_bytes sz rec_ref' + snd (check_wr_trace_buf sz env rec_ref remaining) =
        ref_bytes sz rec_ref + remaining \<and>
      keeps_full sz remaining rec_ref rec_ref'"
  proof (cases "write_count (file_rec rec_ref) \<ge> write_available_buf rec_ref \<and> ?g > 0")
    case True
    then have c: "check_wr_trace_buf sz env rec_ref remaining =
        (rec_ref\<lparr>file_rec := (file_rec rec_ref)\<lparr>write_traces :=
               realloc_traces (realloc_ok env) (write_traces (file_rec rec_ref))
                 (nat (write_available_buf rec_ref + ?g))\<rparr>,
             write_available_buf := write_available_buf rec_ref + ?g\<rparr>,
         remaining - ?g * ?seg)"
      by (simp add: ex)
    from True ok have ne: "write_count (file_rec rec_ref) \<noteq> write_available_buf rec_ref + ?g"
      by (simp add: ref_ok_def)
    have rok: "realloc_ok env"
    proof (rule ccontr)
      assume "\<not> realloc_ok env"
      with a c ne show False
        by (simp add: append_write_def realloc_traces_def)
    qed
    obtain buf where buf: "realloc_traces True (write_traces (file_rec rec_ref))
        (nat (write_available_buf rec_ref + ?g)) = Some buf"
      by (simp add: realloc_traces_def)
    have len: "int (length buf) = write_available_buf rec_ref + ?g"
      using buf_len_realloc [of "write_traces (file_rec rec_ref)" "nat (write_available_buf rec_ref + ?g)"]
        rg(1) g(1) by (simp add: buf buf_len_def)
    from True ok have wc: "0 \<le> write_count (file_rec rec_ref)"
        "write_count (file_rec rec_ref) < int (length buf)"
      by (simp_all add: ref_ok_def len)
    from a have r': "rec_ref' = rec_ref\<lparr>file_rec := (file_rec rec_ref)\<lparr>
        write_traces := Some (buf[nat (write_count (file_rec rec_ref)) := Some seg]),
        write_count := write_count (file_rec rec_ref) + 1\<rparr>,
        write_available_buf := write_available_buf rec_ref + ?g\<rparr>"
      using ne wc by (auto simp: c rok buf append_write_def)
    have "ref_ok rec_ref'"
      using ok wc len by (simp add: r' ref_ok_def buf_len_def)
    moreover have "ref_bytes sz rec_ref' + snd (check_wr_trace_buf sz env rec_ref remaining) =
        ref_bytes sz rec_ref + remaining"
      using ok len by (simp add: r' c ref_bytes_def ref_ok_def buf_len_def algebra_simps)
    moreover have "keeps_full sz remaining rec_ref rec_ref'"
      using True gz ok by (auto simp: keeps_full_def r')
    ultimately show ?thesis by simp
  next
    case False
    then have c: "check_wr_trace_buf sz env rec_ref remaining = (rec_ref, remaining)"
      unfolding ex by (rule if_not_P)
    show ?thesis
    proof (cases "write_count (file_rec rec_ref) = write_available_buf rec_ref")
      case True
      with a c have "rec_ref' = rec_ref" by (simp add: append_write_def)
      with ok c show ?thesis by (simp add: keeps_full_refl)
    next
      case ne: False
      with a c obtain buf where buf: "write_traces (file_rec rec_ref) = Some buf"
        by (auto simp: append_write_def split: option.splits)
      from ok ne have wc: "0 \<le> write_count (file_rec rec_ref)"
          "write_count (file_rec rec_ref) < int (length buf)"
        by (simp_all add: ref_ok_def buf buf_len_def)
      from a have r': "rec_ref' = rec_ref\<lparr>file_rec := (file_rec rec_ref)\<lparr>
          write_traces := Some (buf[nat (write_count (file_rec rec_ref)) := Some seg]),
          write_count := write_count (file_rec rec_ref) + 1\<rparr>\<rparr>"
        using ne wc by (auto simp: c buf append_write_def)
      have "ref_ok rec_ref'"
        using ok wc by (simp add: r' ref_ok_def buf buf_len_def)
      moreover have "ref_bytes sz rec_ref' + snd (check_wr_trace_buf sz env rec_ref remaining) =
          ref_bytes sz rec_ref + remaining"
        by (simp add: r' c ref_bytes_def buf buf_len_def)
      moreover have "keeps_full sz remaining rec_ref rec_ref'"
        using ne by (simp add: keeps_full_def r')
      ultimately show ?thesis by simp
    qed
  qed
  from all show "ref_ok rec_ref'" by simp
  from all show "ref_bytes sz rec_ref' + snd (check_wr_trace_buf sz env rec_ref remaining) =
           ref_bytes sz rec_ref + remaining" by simp
  from all show "keeps_full sz remaining rec_ref rec_ref'" by simp
qed

text \<open>
  The growth check followed by the append, for the read direction: when the call
  returns, the reference is consistent again, and the bytes it holds have grown by
  what the budget has lost.
\<close>

lemma read_step:
  assumes sz: "sizes_ok sz" and ok: "ref_ok rec_ref" and r0: "0 \<le> remaining"
    and b: "ref_bytes sz rec_ref + remaining \<le> DXT_IO_TRACE_MEM_MAX"
    and a: "append_read seg (fst (check_rd_trace_buf sz env rec_ref remaining)) = Inr rec_ref'"
  shows "ref_ok rec_ref'"
    and "0 \<le> snd (check_rd_trace_buf sz env rec_ref remaining)"
    and "snd (check_rd_trace_buf sz env rec_ref remaining) \<le> remaining"
    and "ref_bytes sz rec_ref' + snd (check_rd_trace_buf sz env rec_ref remaining) =
           ref_bytes sz rec_ref + remaining"
    and "keeps_full sz remaining rec_ref rec_ref'"
proof -
  let ?seg = "sizeof_segment_info sz"
  let ?g = "granted_inc sz (read_available_buf rec_ref) remaining"
  note ex = check_rd_trace_buf_exact [OF sz ok r0 b, of env]
  note rg = ref_ranges [OF sz ok r0 b]
  have seg: "0 < ?seg" using sz by (simp add: sizes_ok_def)
  have g: "0 \<le> ?g" "?g * ?seg \<le> remaining"
    using granted_inc_bounds [OF seg rg(3) r0] by simp_all
  have gs: "0 \<le> ?g * ?seg" using g(1) seg by simp
  have gz: "remaining < ?seg \<Longrightarrow> ?g = 0"
    using granted_inc_zero [OF seg rg(3) r0] by simp
  show "0 \<le> snd (check_rd_trace_buf sz env rec_ref remaining)"
    using g(2) r0 by (simp add: ex)
  show "snd (check_rd_trace_buf sz env rec_ref remaining) \<le> remaining"
    using gs by (simp add: ex)
  have all: "ref_ok rec_ref' \<and>
      ref_bytes sz rec_ref' + snd (check_rd_trace_buf sz env rec_ref remaining) =
        ref_bytes sz rec_ref + remaining \<and>
      keeps_full sz remaining rec_ref rec_ref'"
  proof (cases "read_count (file_rec rec_ref) \<ge> read_available_buf rec_ref \<and> ?g > 0")
    case True
    then have c: "check_rd_trace_buf sz env rec_ref remaining =
        (rec_ref\<lparr>file_rec := (file_rec rec_ref)\<lparr>read_traces :=
               realloc_traces (realloc_ok env) (read_traces (file_rec rec_ref))
                 (nat (read_available_buf rec_ref + ?g))\<rparr>,
             read_available_buf := read_available_buf rec_ref + ?g\<rparr>,
         remaining - ?g * ?seg)"
      by (simp add: ex)
    from True ok have ne: "read_count (file_rec rec_ref) \<noteq> read_available_buf rec_ref + ?g"
      by (simp add: ref_ok_def)
    have rok: "realloc_ok env"
    proof (rule ccontr)
      assume "\<not> realloc_ok env"
      with a c ne show False
        by (simp add: append_read_def realloc_traces_def)
    qed
    obtain buf where buf: "realloc_traces True (read_traces (file_rec rec_ref))
        (nat (read_available_buf rec_ref + ?g)) = Some buf"
      by (simp add: realloc_traces_def)
    have len: "int (length buf) = read_available_buf rec_ref + ?g"
      using buf_len_realloc [of "read_traces (file_rec rec_ref)" "nat (read_available_buf rec_ref + ?g)"]
        rg(3) g(1) by (simp add: buf buf_len_def)
    from True ok have wc: "0 \<le> read_count (file_rec rec_ref)"
        "read_count (file_rec rec_ref) < int (length buf)"
      by (simp_all add: ref_ok_def len)
    from a have r': "rec_ref' = rec_ref\<lparr>file_rec := (file_rec rec_ref)\<lparr>
        read_traces := Some (buf[nat (read_count (file_rec rec_ref)) := Some seg]),
        read_count := read_count (file_rec rec_ref) + 1\<rparr>,
        read_available_buf := read_available_buf rec_ref + ?g\<rparr>"
      using ne wc by (auto simp: c rok buf append_read_def)
    have "ref_ok rec_ref'"
      using ok wc len by (simp add: r' ref_ok_def buf_len_def)
    moreover have "ref_bytes sz rec_ref' + snd (check_rd_trace_buf sz env rec_ref remaining) =
        ref_bytes sz rec_ref + remaining"
      using ok len by (simp add: r' c ref_bytes_def ref_ok_def buf_len_def algebra_simps)
    moreover have "keeps_full sz remaining rec_ref rec_ref'"
      using True gz ok by (auto simp: keeps_full_def r')
    ultimately show ?thesis by simp
  next
    case False
    then have c: "check_rd_trace_buf sz env rec_ref remaining = (rec_ref, remaining)"
      unfolding ex by (rule if_not_P)
    show ?thesis
    proof (cases "read_count (file_rec rec_ref) = read_available_buf rec_ref")
      case True
      with a c have "rec_ref' = rec_ref" by (simp add: append_read_def)
      with ok c show ?thesis by (simp add: keeps_full_refl)
    next
      case ne: False
      with a c obtain buf where buf: "read_traces (file_rec rec_ref) = Some buf"
        by (auto simp: append_read_def split: option.splits)
      from ok ne have wc: "0 \<le> read_count (file_rec rec_ref)"
          "read_count (file_rec rec_ref) < int (length buf)"
        by (simp_all add: ref_ok_def buf buf_len_def)
      from a have r': "rec_ref' = rec_ref\<lparr>file_rec := (file_rec rec_ref)\<lparr>
          read_traces := Some (buf[nat (read_count (file_rec rec_ref)) := Some seg]),
          read_count := read_count (file_rec rec_ref) + 1\<rparr>\<rparr>"
        using ne wc by (auto simp: c buf append_read_def)
      have "ref_ok rec_ref'"
        using ok wc by (simp add: r' ref_ok_def buf buf_len_def)
      moreover have "ref_bytes sz rec_ref' + snd (check_rd_trace_buf sz env rec_ref remaining) =
          ref_bytes sz rec_ref + remaining"
        by (simp add: r' c ref_bytes_def buf buf_len_def)
      moreover have "keeps_full sz remaining rec_ref rec_ref'"
        using ne by (simp add: keeps_full_def r')
      ultimately show ?thesis by simp
    qed
  qed
  from all show "ref_ok rec_ref'" by simp
  from all show "ref_bytes sz rec_ref' + snd (check_rd_trace_buf sz env rec_ref remaining) =
           ref_bytes sz rec_ref + remaining" by simp
  from all show "keeps_full sz remaining rec_ref rec_ref'" by simp
qed

subsection \<open>DXT: the table of record references\<close>

lemma ref_bytes_nonneg: "sizes_ok sz \<Longrightarrow> 0 \<le> ref_bytes sz r"
  using buf_len_nonneg [of "write_traces (file_rec r)"] buf_len_nonneg [of "read_traces (file_rec r)"]
  by (simp add: ref_bytes_def sizes_ok_def)

lemma refs_bytes_nonneg: "sizes_ok sz \<Longrightarrow> 0 \<le> refs_bytes sz refs"
  by (induction refs) (simp_all add: refs_bytes_def ref_bytes_nonneg)

lemma ref_bytes_le_refs_bytes:
  "sizes_ok sz \<Longrightarrow> map_of refs k = Some r \<Longrightarrow> ref_bytes sz r \<le> refs_bytes sz refs"
proof (induction refs)
  case Nil
  then show ?case by simp
next
  case (Cons e refs)
  obtain k' r' where e: "e = (k', r')" by (cases e)
  show ?case
  proof (cases "k' = k")
    case True
    with Cons.prems e refs_bytes_nonneg [OF Cons.prems(1), of refs] show ?thesis
      by (simp add: refs_bytes_def)
  next
    case False
    with Cons e ref_bytes_nonneg [OF Cons.prems(1), of r'] show ?thesis
      by (simp add: refs_bytes_def)
  qed
qed

lemma refs_bytes_store:
  "map_of refs k = Some r \<Longrightarrow>
     refs_bytes sz (ref_store k r' refs) = refs_bytes sz refs - ref_bytes sz r + ref_bytes sz r'"
proof (induction refs)
  case Nil
  then show ?case by simp
next
  case (Cons e refs)
  obtain k' v' where e: "e = (k', v')" by (cases e)
  show ?case
  proof (cases "k' = k")
    case True
    with Cons.prems e show ?thesis by (simp add: refs_bytes_def)
  next
    case False
    with Cons.prems e have "map_of refs k = Some r" by simp
    from Cons.IH [OF this] False e show ?thesis by (simp add: refs_bytes_def)
  qed
qed

lemma refs_ok_store: "refs_ok refs \<Longrightarrow> ref_ok r' \<Longrightarrow> refs_ok (ref_store k r' refs)"
  by (induction refs) (auto simp: refs_ok_def)

lemma refs_ok_lookup: "refs_ok refs \<Longrightarrow> map_of refs k = Some r \<Longrightarrow> ref_ok r"
  by (induction refs) (auto simp: refs_ok_def split: if_splits)

lemma map_of_ref_store:
  "map_of (ref_store k r' refs) k' =
     (if k' = k \<and> map_of refs k \<noteq> None then Some r' else map_of refs k')"
  by (induction refs) auto

lemma ref_store_same: "map_of refs k = Some r \<Longrightarrow> ref_store k r refs = refs"
  by (induction refs) (auto split: if_splits)

lemma refs_keep_refl: "refs_keep sz remaining refs refs"
  by (simp add: refs_keep_def keeps_full_refl)

lemma keeps_full_trans:
  "keeps_full sz remaining r r' \<Longrightarrow> keeps_full sz remaining' r' r'' \<Longrightarrow>
     remaining' \<le> remaining \<Longrightarrow> keeps_full sz remaining r r''"
  by (auto simp: keeps_full_def)

lemma refs_keep_trans:
  assumes "refs_keep sz remaining refs refs'" and "refs_keep sz remaining' refs' refs''"
    and "remaining' \<le> remaining"
  shows "refs_keep sz remaining refs refs''"
  unfolding refs_keep_def
proof (intro allI impI)
  fix k r assume "map_of refs k = Some r"
  with assms(1) obtain r' where r': "map_of refs' k = Some r'" "keeps_full sz remaining r r'"
    by (auto simp: refs_keep_def)
  with assms(2) obtain r'' where r'': "map_of refs'' k = Some r''" "keeps_full sz remaining' r' r''"
    by (auto simp: refs_keep_def)
  from keeps_full_trans [OF r'(2) r''(2) assms(3)] r''(1)
  show "\<exists>r''. map_of refs'' k = Some r'' \<and> keeps_full sz remaining r r''" by blast
qed

lemma step_ok_refl: "dxt_inv sz s \<Longrightarrow> step_ok sz s s"
  by (simp add: step_ok_def refs_keep_refl)

lemma step_ok_trans:
  assumes "step_ok sz s s1" and "step_ok sz s1 s2"
  shows "step_ok sz s s2"
proof -
  from assms have le: "dxt_mem_remaining s1 \<le> dxt_mem_remaining s"
    by (simp add: step_ok_def)
  show ?thesis
  proof (cases "instrumentation_disabled s2")
    case True
    with assms show ?thesis by (simp add: step_ok_def)
  next
    case False
    with assms have d1: "\<not> instrumentation_disabled s1" by (auto simp: step_ok_def)
    from assms d1 False have
      "refs_keep sz (dxt_mem_remaining s)
         (runtime_refs (dxt_posix_runtime s)) (runtime_refs (dxt_posix_runtime s1))"
      "refs_keep sz (dxt_mem_remaining s1)
         (runtime_refs (dxt_posix_runtime s1)) (runtime_refs (dxt_posix_runtime s2))"
      "refs_keep sz (dxt_mem_remaining s)
         (runtime_refs (dxt_mpiio_runtime s)) (runtime_refs (dxt_mpiio_runtime s1))"
      "refs_keep sz (dxt_mem_remaining s1)
         (runtime_refs (dxt_mpiio_runtime s1)) (runtime_refs (dxt_mpiio_runtime s2))"
      by (simp_all add: step_ok_def)
    from refs_keep_trans [OF this(1,2) le] refs_keep_trans [OF this(3,4) le] assms
    show ?thesis by (simp add: step_ok_def)
  qed
qed

lemma refs_keep_store:
  assumes "map_of refs k = Some r" and "keeps_full sz remaining r r'"
  shows "refs_keep sz remaining refs (ref_store k r' refs)"
  using assms by (auto simp: refs_keep_def map_of_ref_store keeps_full_refl)

lemma refs_keep_append:
  "refs_keep sz remaining refs (refs @ [e])"
  by (auto simp: refs_keep_def keeps_full_refl map_add_def split: option.splits)

text \<open>Storing the reference back after a trace call.\<close>

lemma put_posix_step:
  assumes sz: "sizes_ok sz" and inv: "dxt_inv sz s"
    and rt: "dxt_posix_runtime s = Some rt" and l: "map_of (rec_id_hash rt) rid = Some r"
    and ok: "ref_ok r'" and r0: "0 \<le> remaining" and le: "remaining \<le> dxt_mem_remaining s"
    and b: "ref_bytes sz r' + remaining = ref_bytes sz r + dxt_mem_remaining s"
    and k: "keeps_full sz (dxt_mem_remaining s) r r'"
  shows "step_ok sz s (put_posix rid r' remaining s)"
proof -
  have "refs_bytes sz (ref_store rid r' (rec_id_hash rt)) =
      refs_bytes sz (rec_id_hash rt) - ref_bytes sz r + ref_bytes sz r'"
    by (rule refs_bytes_store [OF l])
  with inv b r0 have i: "dxt_inv sz (put_posix rid r' remaining s)"
    using refs_ok_store [OF _ ok, of "rec_id_hash rt" rid]
    by (simp add: dxt_inv_def put_posix_def rt dxt_bytes_held_def runtime_refs_def)
  show ?thesis
    using i le refs_keep_store [OF l k]
    by (simp add: step_ok_def put_posix_def rt runtime_refs_def refs_keep_refl)
qed

lemma put_mpiio_step:
  assumes sz: "sizes_ok sz" and inv: "dxt_inv sz s"
    and rt: "dxt_mpiio_runtime s = Some rt" and l: "map_of (rec_id_hash rt) rid = Some r"
    and ok: "ref_ok r'" and r0: "0 \<le> remaining" and le: "remaining \<le> dxt_mem_remaining s"
    and b: "ref_bytes sz r' + remaining = ref_bytes sz r + dxt_mem_remaining s"
    and k: "keeps_full sz (dxt_mem_remaining s) r r'"
  shows "step_ok sz s (put_mpiio rid r' remaining s)"
proof -
  have "refs_bytes sz (ref_store rid r' (rec_id_hash rt)) =
      refs_bytes sz (rec_id_hash rt) - ref_bytes sz r + ref_bytes sz r'"
    by (rule refs_bytes_store [OF l])
  with inv b r0 have i: "dxt_inv sz (put_mpiio rid r' remaining s)"
    using refs_ok_store [OF _ ok, of "rec_id_hash rt" rid]
    by (simp add: dxt_inv_def put_mpiio_def rt dxt_bytes_held_def runtime_refs_def)
  show ?thesis
    using i le refs_keep_store [OF l k]
    by (simp add: step_ok_def put_mpiio_def rt runtime_refs_def refs_keep_refl)
qed

text \<open>The runtime initialisation and the creation of a record.\<close>

lemma posix_initialize_step:
  "dxt_inv sz s \<Longrightarrow> dxt_posix_runtime s = None \<Longrightarrow>
     step_ok sz s (dxt_posix_runtime_initialize env s)"
  by (simp add: step_ok_def dxt_inv_def dxt_posix_runtime_initialize_def dxt_bytes_held_def
      runtime_refs_def refs_bytes_def refs_ok_def refs_keep_def keeps_full_refl)

lemma mpiio_initialize_step:
  "dxt_inv sz s \<Longrightarrow> dxt_mpiio_runtime s = None \<Longrightarrow>
     step_ok sz s (dxt_mpiio_runtime_initialize env s)"
  by (simp add: step_ok_def dxt_inv_def dxt_mpiio_runtime_initialize_def dxt_bytes_held_def
      runtime_refs_def refs_bytes_def refs_ok_def refs_keep_def keeps_full_refl)

lemma new_ref_ok: "ref_ok (new_ref rid rank)"
  by (simp add: ref_ok_def new_ref_def buf_len_def)

lemma new_ref_bytes: "ref_bytes sz (new_ref rid rank) = sizeof_dxt_file_record sz"
  by (simp add: ref_bytes_def new_ref_def buf_len_def)

lemma record_debit:
  assumes "sizes_ok sz" and "0 \<le> remaining" and "remaining \<le> DXT_IO_TRACE_MEM_MAX"
    and "\<not> size_t_of remaining < sizeof_dxt_file_record sz"
  shows "int_of (size_t_of (size_t_of remaining - sizeof_dxt_file_record sz)) =
           remaining - sizeof_dxt_file_record sz"
    and "sizeof_dxt_file_record sz \<le> remaining"
proof -
  have sr: "size_t_of remaining = remaining"
    using assms(2,3) by (intro size_t_of_id) (simp_all add: DXT_IO_TRACE_MEM_MAX_def)
  with assms(4) show le: "sizeof_dxt_file_record sz \<le> remaining" by simp
  have rec: "0 < sizeof_dxt_file_record sz" using assms(1) by (simp add: sizes_ok_def)
  have "size_t_of (remaining - sizeof_dxt_file_record sz) = remaining - sizeof_dxt_file_record sz"
    using le rec assms(3) by (intro size_t_of_id) (simp_all add: DXT_IO_TRACE_MEM_MAX_def)
  moreover have "int_of (remaining - sizeof_dxt_file_record sz) = remaining - sizeof_dxt_file_record sz"
    using le rec assms(3) by (intro int_of_id) (simp_all add: DXT_IO_TRACE_MEM_MAX_def)
  ultimately show "int_of (size_t_of (size_t_of remaining - sizeof_dxt_file_record sz)) =
           remaining - sizeof_dxt_file_record sz"
    by (simp add: sr)
qed

lemma inv_remaining_le:
  "sizes_ok sz \<Longrightarrow> dxt_inv sz s \<Longrightarrow> dxt_mem_remaining s \<le> DXT_IO_TRACE_MEM_MAX"
  using refs_bytes_nonneg [of sz "runtime_refs (dxt_posix_runtime s)"]
    refs_bytes_nonneg [of sz "runtime_refs (dxt_mpiio_runtime s)"]
  by (simp add: dxt_inv_def dxt_bytes_held_def)

lemma posix_track_step:
  assumes sz: "sizes_ok sz" and inv: "dxt_inv sz s"
    and rt: "dxt_posix_runtime s = Some rt" and l: "map_of (rec_id_hash rt) rid = None"
    and t: "dxt_posix_track_new_file_record sz env rid s = Inr (res, s')"
  shows "step_ok sz s s'"
    and "res = None \<or>
         (\<exists>r rt'. res = Some r \<and> dxt_posix_runtime s' = Some rt' \<and>
            map_of (rec_id_hash rt') rid = Some r)"
proof -
  have both: "step_ok sz s s' \<and> (res = None \<or>
         (\<exists>r rt'. res = Some r \<and> dxt_posix_runtime s' = Some rt' \<and>
            map_of (rec_id_hash rt') rid = Some r))"
  proof (cases "res")
    case None
    with t have "s' = s"
      by (auto simp: dxt_posix_track_new_file_record_def rt split: if_splits)
    with inv None show ?thesis by (simp add: step_ok_refl)
  next
    case (Some r)
    with t have c: "\<not> size_t_of (dxt_mem_remaining s) < sizeof_dxt_file_record sz"
      and r: "r = new_ref rid (posix_my_rank s)"
      and s': "s' = s\<lparr>dxt_mem_remaining :=
                       int_of (size_t_of (size_t_of (dxt_mem_remaining s) - sizeof_dxt_file_record sz)),
                     dxt_posix_runtime := Some (rt\<lparr>
                       rec_id_hash := rec_id_hash rt @ [(rid, new_ref rid (posix_my_rank s))],
                       file_rec_count := file_rec_count rt + 1\<rparr>)\<rparr>"
      by (auto simp: dxt_posix_track_new_file_record_def rt split: if_splits)
    from inv have r0: "0 \<le> dxt_mem_remaining s" by (simp add: dxt_inv_def)
    note d = record_debit [OF sz r0 inv_remaining_le [OF sz inv] c]
    have rec: "0 < sizeof_dxt_file_record sz" using sz by (simp add: sizes_ok_def)
    have i: "dxt_inv sz s'"
      using inv d rec
      by (simp add: s' dxt_inv_def dxt_bytes_held_def runtime_refs_def rt refs_bytes_def
          refs_ok_def new_ref_ok new_ref_bytes)
    have m: "map_of (rec_id_hash rt @ [(rid, r)]) rid = Some r"
      using l by (simp add: map_add_def)
    have "step_ok sz s s'"
      using i d rec refs_keep_append [of sz "dxt_mem_remaining s" "rec_id_hash rt"]
      by (simp add: step_ok_def s' runtime_refs_def rt refs_keep_refl)
    with Some m r s' show ?thesis by simp
  qed
  from both show "step_ok sz s s'" by simp
  from both show "res = None \<or>
         (\<exists>r rt'. res = Some r \<and> dxt_posix_runtime s' = Some rt' \<and>
            map_of (rec_id_hash rt') rid = Some r)" by simp
qed

lemma mpiio_track_step:
  assumes sz: "sizes_ok sz" and inv: "dxt_inv sz s"
    and rt: "dxt_mpiio_runtime s = Some rt" and l: "map_of (rec_id_hash rt) rid = None"
    and t: "dxt_mpiio_track_new_file_record sz env rid s = Inr (res, s')"
  shows "step_ok sz s s'"
    and "res = None \<or>
         (\<exists>r rt'. res = Some r \<and> dxt_mpiio_runtime s' = Some rt' \<and>
            map_of (rec_id_hash rt') rid = Some r)"
proof -
  have both: "step_ok sz s s' \<and> (res = None \<or>
         (\<exists>r rt'. res = Some r \<and> dxt_mpiio_runtime s' = Some rt' \<and>
            map_of (rec_id_hash rt') rid = Some r))"
  proof (cases "res")
    case None
    with t have "s' = s"
      by (auto simp: dxt_mpiio_track_new_file_record_def rt split: if_splits)
    with inv None show ?thesis by (simp add: step_ok_refl)
  next
    case (Some r)
    with t have c: "\<not> size_t_of (dxt_mem_remaining s) < sizeof_dxt_file_record sz"
      and r: "r = new_ref rid (mpiio_my_rank s)"
      and s': "s' = s\<lparr>dxt_mem_remaining :=
                       int_of (size_t_of (size_t_of (dxt_mem_remaining s) - sizeof_dxt_file_record sz)),
                     dxt_mpiio_runtime := Some (rt\<lparr>
                       rec_id_hash := rec_id_hash rt @ [(rid, new_ref rid (mpiio_my_rank s))],
                       file_rec_count := file_rec_count rt + 1\<rparr>)\<rparr>"
      by (auto simp: dxt_mpiio_track_new_file_record_def rt split: if_splits)
    from inv have r0: "0 \<le> dxt_mem_remaining s" by (simp add: dxt_inv_def)
    note d = record_debit [OF sz r0 inv_remaining_le [OF sz inv] c]
    have rec: "0 < sizeof_dxt_file_record sz" using sz by (simp add: sizes_ok_def)
    have i: "dxt_inv sz s'"
      using inv d rec
      by (simp add: s' dxt_inv_def dxt_bytes_held_def runtime_refs_def rt refs_bytes_def
          refs_ok_def new_ref_ok new_ref_bytes)
    have m: "map_of (rec_id_hash rt @ [(rid, r)]) rid = Some r"
      using l by (simp add: map_add_def)
    have "step_ok sz s s'"
      using i d rec refs_keep_append [of sz "dxt_mem_remaining s" "rec_id_hash rt"]
      by (simp add: step_ok_def s' runtime_refs_def rt refs_keep_refl)
    with Some m r s' show ?thesis by simp
  qed
  from both show "step_ok sz s s'" by simp
  from both show "res = None \<or>
         (\<exists>r rt'. res = Some r \<and> dxt_mpiio_runtime s' = Some rt' \<and>
            map_of (rec_id_hash rt') rid = Some r)" by simp
qed

subsection \<open>DXT: the four trace calls keep the invariant\<close>

lemma posix_write_tail:
  assumes sz: "sizes_ok sz" and inv: "dxt_inv sz s"
    and rt: "dxt_posix_runtime s = Some rt" and l: "map_of (rec_id_hash rt) rid = Some r"
    and a: "append_write seg (fst (check_wr_trace_buf sz env r (dxt_mem_remaining s))) = Inr r'"
  shows "step_ok sz s (put_posix rid r' (snd (check_wr_trace_buf sz env r (dxt_mem_remaining s))) s)"
proof -
  from inv rt have oks: "refs_ok (rec_id_hash rt)" by (simp add: dxt_inv_def runtime_refs_def)
  from refs_ok_lookup [OF oks l] have ok: "ref_ok r" .
  from inv have r0: "0 \<le> dxt_mem_remaining s" by (simp add: dxt_inv_def)
  have "ref_bytes sz r \<le> dxt_bytes_held sz s"
    using ref_bytes_le_refs_bytes [OF sz l] refs_bytes_nonneg [OF sz, of "runtime_refs (dxt_mpiio_runtime s)"]
    by (simp add: dxt_bytes_held_def runtime_refs_def rt)
  with inv have b: "ref_bytes sz r + dxt_mem_remaining s \<le> DXT_IO_TRACE_MEM_MAX"
    by (simp add: dxt_inv_def)
  note ws = write_step [OF sz ok r0 b a]
  show ?thesis
    by (rule put_posix_step [OF sz inv rt l ws(1) ws(2) ws(3) ws(4) ws(5)])
qed

lemma dxt_posix_write_step:
  assumes sz: "sizes_ok sz" and inv: "dxt_inv sz s"
    and w: "dxt_posix_write sz env rid offset len start_time end_time s = Inr s'"
  shows "step_ok sz s s'"
proof (cases "instrumentation_disabled s")
  case True
  with w have "s' = s" by (simp add: dxt_posix_write_def)
  with inv show ?thesis by (simp add: step_ok_refl)
next
  case False
  let ?s1 = "if dxt_posix_runtime s = None then dxt_posix_runtime_initialize env s else s"
  let ?seg = "\<lparr>seg_offset = Some offset, seg_length = len,
                 seg_start_time = start_time, seg_end_time = end_time\<rparr>"
  have st1: "step_ok sz s ?s1"
    using inv by (simp add: posix_initialize_step step_ok_refl)
  then have inv1: "dxt_inv sz ?s1" by (simp add: step_ok_def)
  show ?thesis
  proof (cases "dxt_posix_runtime ?s1")
    case None
    with w False have "s' = ?s1" by (simp add: dxt_posix_write_def Let_def)
    with st1 show ?thesis by simp
  next
    case (Some rt)
    show ?thesis
    proof (cases "darshan_lookup_record_ref (rec_id_hash rt) rid")
      case found: (Some r)
      with w False Some obtain r' where
          a: "append_write ?seg (fst (check_wr_trace_buf sz env r (dxt_mem_remaining ?s1))) = Inr r'"
          and s': "s' = put_posix rid r' (snd (check_wr_trace_buf sz env r (dxt_mem_remaining ?s1))) ?s1"
        by (auto simp: dxt_posix_write_def Let_def split: sum.splits)
      from found have l: "map_of (rec_id_hash rt) rid = Some r"
        by (simp add: darshan_lookup_record_ref_def)
      from posix_write_tail [OF sz inv1 Some l a] s' have "step_ok sz ?s1 s'" by simp
      with st1 show ?thesis by (rule step_ok_trans)
    next
      case None
      then have l: "map_of (rec_id_hash rt) rid = None"
        by (simp add: darshan_lookup_record_ref_def)
      from w False Some None obtain res s2 where
          t: "dxt_posix_track_new_file_record sz env rid ?s1 = Inr (res, s2)"
        by (auto simp: dxt_posix_write_def Let_def split: sum.splits)
      note tr = posix_track_step [OF sz inv1 Some l t]
      from st1 tr(1) have st2: "step_ok sz s s2" by (rule step_ok_trans)
      show ?thesis
      proof (cases res)
        case none: None
        with w False Some None t have "s' = s2"
          by (simp add: dxt_posix_write_def Let_def)
        with st2 show ?thesis by simp
      next
        case new: (Some r)
        with tr(2) obtain rt2 where rt2: "dxt_posix_runtime s2 = Some rt2"
            "map_of (rec_id_hash rt2) rid = Some r" by auto
        from w False Some None t new obtain r' where
            a: "append_write ?seg (fst (check_wr_trace_buf sz env r (dxt_mem_remaining s2))) = Inr r'"
            and s': "s' = put_posix rid r' (snd (check_wr_trace_buf sz env r (dxt_mem_remaining s2))) s2"
          by (auto simp: dxt_posix_write_def Let_def split: sum.splits)
        from tr(1) have inv2: "dxt_inv sz s2" by (simp add: step_ok_def)
        from posix_write_tail [OF sz inv2 rt2 a] s' have "step_ok sz s2 s'" by simp
        with st2 show ?thesis by (rule step_ok_trans)
      qed
    qed
  qed
qed

lemma posix_read_tail:
  assumes sz: "sizes_ok sz" and inv: "dxt_inv sz s"
    and rt: "dxt_posix_runtime s = Some rt" and l: "map_of (rec_id_hash rt) rid = Some r"
    and a: "append_read seg (fst (check_rd_trace_buf sz env r (dxt_mem_remaining s))) = Inr r'"
  shows "step_ok sz s (put_posix rid r' (snd (check_rd_trace_buf sz env r (dxt_mem_remaining s))) s)"
proof -
  from inv rt have oks: "refs_ok (rec_id_hash rt)" by (simp add: dxt_inv_def runtime_refs_def)
  from refs_ok_lookup [OF oks l] have ok: "ref_ok r" .
  from inv have r0: "0 \<le> dxt_mem_remaining s" by (simp add: dxt_inv_def)
  have "ref_bytes sz r \<le> dxt_bytes_held sz s"
    using ref_bytes_le_refs_bytes [OF sz l] refs_bytes_nonneg [OF sz, of "runtime_refs (dxt_mpiio_runtime s)"]
    by (simp add: dxt_bytes_held_def runtime_refs_def rt)
  with inv have b: "ref_bytes sz r + dxt_mem_remaining s \<le> DXT_IO_TRACE_MEM_MAX"
    by (simp add: dxt_inv_def)
  note ws = read_step [OF sz ok r0 b a]
  show ?thesis
    by (rule put_posix_step [OF sz inv rt l ws(1) ws(2) ws(3) ws(4) ws(5)])
qed

lemma dxt_posix_read_step:
  assumes sz: "sizes_ok sz" and inv: "dxt_inv sz s"
    and w: "dxt_posix_read sz env rid offset len start_time end_time s = Inr s'"
  shows "step_ok sz s s'"
proof (cases "instrumentation_disabled s")
  case True
  with w have "s' = s" by (simp add: dxt_posix_read_def)
  with inv show ?thesis by (simp add: step_ok_refl)
next
  case False
  let ?s1 = "if dxt_posix_runtime s = None then dxt_posix_runtime_initialize env s else s"
  let ?seg = "\<lparr>seg_offset = Some offset, seg_length = len,
                 seg_start_time = start_time, seg_end_time = end_time\<rparr>"
  have st1: "step_ok sz s ?s1"
    using inv by (simp add: posix_initialize_step step_ok_refl)
  then have inv1: "dxt_inv sz ?s1" by (simp add: step_ok_def)
  show ?thesis
  proof (cases "dxt_posix_runtime ?s1")
    case None
    with w False have "s' = ?s1" by (simp add: dxt_posix_read_def Let_def)
    with st1 show ?thesis by simp
  next
    case (Some rt)
    show ?thesis
    proof (cases "darshan_lookup_record_ref (rec_id_hash rt) rid")
      case found: (Some r)
      with w False Some obtain r' where
          a: "append_read ?seg (fst (check_rd_trace_buf sz env r (dxt_mem_remaining ?s1))) = Inr r'"
          and s': "s' = put_posix rid r' (snd (check_rd_trace_buf sz env r (dxt_mem_remaining ?s1))) ?s1"
        by (auto simp: dxt_posix_read_def Let_def split: sum.splits)
      from found have l: "map_of (rec_id_hash rt) rid = Some r"
        by (simp add: darshan_lookup_record_ref_def)
      from posix_read_tail [OF sz inv1 Some l a] s' have "step_ok sz ?s1 s'" by simp
      with st1 show ?thesis by (rule step_ok_trans)
    next
      case None
      then have l: "map_of (rec_id_hash rt) rid = None"
        by (simp add: darshan_lookup_record_ref_def)
      from w False Some None obtain res s2 where
          t: "dxt_posix_track_new_file_record sz env rid ?s1 = Inr (res, s2)"
        by (auto simp: dxt_posix_read_def Let_def split: sum.splits)
      note tr = posix_track_step [OF sz inv1 Some l t]
      from st1 tr(1) have st2: "step_ok sz s s2" by (rule step_ok_trans)
      show ?thesis
      proof (cases res)
        case none: None
        with w False Some None t have "s' = s2"
          by (simp add: dxt_posix_read_def Let_def)
        with st2 show ?thesis by simp
      next
        case new: (Some r)
        with tr(2) obtain rt2 where rt2: "dxt_posix_runtime s2 = Some rt2"
            "map_of (rec_id_hash rt2) rid = Some r" by auto
        from w False Some None t new obtain r' where
            a: "append_read ?seg (fst (check_rd_trace_buf sz env r (dxt_mem_remaining s2))) = Inr r'"
            and s': "s' = put_posix rid r' (snd (check_rd_trace_buf sz env r (dxt_mem_remaining s2))) s2"
          by (auto simp: dxt_posix_read_def Let_def split: sum.splits)
        from tr(1) have inv2: "dxt_inv sz s2" by (simp add: step_ok_def)
        from posix_read_tail [OF sz inv2 rt2 a] s' have "step_ok sz s2 s'" by simp
        with st2 show ?thesis by (rule step_ok_trans)
      qed
    qed
  qed
qed

lemma mpiio_write_tail:
  assumes sz: "sizes_ok sz" and inv: "dxt_inv sz s"
    and rt: "dxt_mpiio_runtime s = Some rt" and l: "map_of (rec_id_hash rt) rid = Some r"
    and a: "append_write seg (fst (check_wr_trace_buf sz env r (dxt_mem_remaining s))) = Inr r'"
  shows "step_ok sz s (put_mpiio rid r' (snd (check_wr_trace_buf sz env r (dxt_mem_remaining s))) s)"
proof -
  from inv rt have oks: "refs_ok (rec_id_hash rt)" by (simp add: dxt_inv_def runtime_refs_def)
  from refs_ok_lookup [OF oks l] have ok: "ref_ok r" .
  from inv have r0: "0 \<le> dxt_mem_remaining s" by (simp add: dxt_inv_def)
  have "ref_bytes sz r \<le> dxt_bytes_held sz s"
    using ref_bytes_le_refs_bytes [OF sz l] refs_bytes_nonneg [OF sz, of "runtime_refs (dxt_posix_runtime s)"]
    by (simp add: dxt_bytes_held_def runtime_refs_def rt)
  with inv have b: "ref_bytes sz r + dxt_mem_remaining s \<le> DXT_IO_TRACE_MEM_MAX"
    by (simp add: dxt_inv_def)
  note ws = write_step [OF sz ok r0 b a]
  show ?thesis
    by (rule put_mpiio_step [OF sz inv rt l ws(1) ws(2) ws(3) ws(4) ws(5)])
qed

lemma dxt_mpiio_write_step:
  assumes sz: "sizes_ok sz" and inv: "dxt_inv sz s"
    and w: "dxt_mpiio_write sz env rid len start_time end_time s = Inr s'"
  shows "step_ok sz s s'"
proof (cases "instrumentation_disabled s")
  case True
  with w have "s' = s" by (simp add: dxt_mpiio_write_def)
  with inv show ?thesis by (simp add: step_ok_refl)
next
  case False
  let ?s1 = "if dxt_mpiio_runtime s = None then dxt_mpiio_runtime_initialize env s else s"
  let ?seg = "\<lparr>seg_offset = None, seg_length = len,
                 seg_start_time = start_time, seg_end_time = end_time\<rparr>"
  have st1: "step_ok sz s ?s1"
    using inv by (simp add: mpiio_initialize_step step_ok_refl)
  then have inv1: "dxt_inv sz ?s1" by (simp add: step_ok_def)
  show ?thesis
  proof (cases "dxt_mpiio_runtime ?s1")
    case None
    with w False have "s' = ?s1" by (simp add: dxt_mpiio_write_def Let_def)
    with st1 show ?thesis by simp
  next
    case (Some rt)
    show ?thesis
    proof (cases "darshan_lookup_record_ref (rec_id_hash rt) rid")
      case found: (Some r)
      with w False Some obtain r' where
          a: "append_write ?seg (fst (check_wr_trace_buf sz env r (dxt_mem_remaining ?s1))) = Inr r'"
          and s': "s' = put_mpiio rid r' (snd (check_wr_trace_buf sz env r (dxt_mem_remaining ?s1))) ?s1"
        by (auto simp: dxt_mpiio_write_def Let_def split: sum.splits)
      from found have l: "map_of (rec_id_hash rt) rid = Some r"
        by (simp add: darshan_lookup_record_ref_def)
      from mpiio_write_tail [OF sz inv1 Some l a] s' have "step_ok sz ?s1 s'" by simp
      with st1 show ?thesis by (rule step_ok_trans)
    next
      case None
      then have l: "map_of (rec_id_hash rt) rid = None"
        by (simp add: darshan_lookup_record_ref_def)
      from w False Some None obtain res s2 where
          t: "dxt_mpiio_track_new_file_record sz env rid ?s1 = Inr (res, s2)"
        by (auto simp: dxt_mpiio_write_def Let_def split: sum.splits)
      note tr = mpiio_track_step [OF sz inv1 Some l t]
      from st1 tr(1) have st2: "step_ok sz s s2" by (rule step_ok_trans)
      show ?thesis
      proof (cases res)
        case none: None
        with w False Some None t have "s' = s2"
          by (simp add: dxt_mpiio_write_def Let_def)
        with st2 show ?thesis by simp
      next
        case new: (Some r)
        with tr(2) obtain rt2 where rt2: "dxt_mpiio_runtime s2 = Some rt2"
            "map_of (rec_id_hash rt2) rid = Some r" by auto
        from w False Some None t new obtain r' where
            a: "append_write ?seg (fst (check_wr_trace_buf sz env r (dxt_mem_remaining s2))) = Inr r'"
            and s': "s' = put_mpiio rid r' (snd (check_wr_trace_buf sz env r (dxt_mem_remaining s2))) s2"
          by (auto simp: dxt_mpiio_write_def Let_def split: sum.splits)
        from tr(1) have inv2: "dxt_inv sz s2" by (simp add: step_ok_def)
        from mpiio_write_tail [OF sz inv2 rt2 a] s' have "step_ok sz s2 s'" by simp
        with st2 show ?thesis by (rule step_ok_trans)
      qed
    qed
  qed
qed

lemma mpiio_read_tail:
  assumes sz: "sizes_ok sz" and inv: "dxt_inv sz s"
    and rt: "dxt_mpiio_runtime s = Some rt" and l: "map_of (rec_id_hash rt) rid = Some r"
    and a: "append_read seg (fst (check_rd_trace_buf sz env r (dxt_mem_remaining s))) = Inr r'"
  shows "step_ok sz s (put_mpiio rid r' (snd (check_rd_trace_buf sz env r (dxt_mem_remaining s))) s)"
proof -
  from inv rt have oks: "refs_ok (rec_id_hash rt)" by (simp add: dxt_inv_def runtime_refs_def)
  from refs_ok_lookup [OF oks l] have ok: "ref_ok r" .
  from inv have r0: "0 \<le> dxt_mem_remaining s" by (simp add: dxt_inv_def)
  have "ref_bytes sz r \<le> dxt_bytes_held sz s"
    using ref_bytes_le_refs_bytes [OF sz l] refs_bytes_nonneg [OF sz, of "runtime_refs (dxt_posix_runtime s)"]
    by (simp add: dxt_bytes_held_def runtime_refs_def rt)
  with inv have b: "ref_bytes sz r + dxt_mem_remaining s \<le> DXT_IO_TRACE_MEM_MAX"
    by (simp add: dxt_inv_def)
  note ws = read_step [OF sz ok r0 b a]
  show ?thesis
    by (rule put_mpiio_step [OF sz inv rt l ws(1) ws(2) ws(3) ws(4) ws(5)])
qed

lemma dxt_mpiio_read_step:
  assumes sz: "sizes_ok sz" and inv: "dxt_inv sz s"
    and w: "dxt_mpiio_read sz env rid len start_time end_time s = Inr s'"
  shows "step_ok sz s s'"
proof (cases "instrumentation_disabled s")
  case True
  with w have "s' = s" by (simp add: dxt_mpiio_read_def)
  with inv show ?thesis by (simp add: step_ok_refl)
next
  case False
  let ?s1 = "if dxt_mpiio_runtime s = None then dxt_mpiio_runtime_initialize env s else s"
  let ?seg = "\<lparr>seg_offset = None, seg_length = len,
                 seg_start_time = start_time, seg_end_time = end_time\<rparr>"
  have st1: "step_ok sz s ?s1"
    using inv by (simp add: mpiio_initialize_step step_ok_refl)
  then have inv1: "dxt_inv sz ?s1" by (simp add: step_ok_def)
  show ?thesis
  proof (cases "dxt_mpiio_runtime ?s1")
    case None
    with w False have "s' = ?s1" by (simp add: dxt_mpiio_read_def Let_def)
    with st1 show ?thesis by simp
  next
    case (Some rt)
    show ?thesis
    proof (cases "darshan_lookup_record_ref (rec_id_hash rt) rid")
      case found: (Some r)
      with w False Some obtain r' where
          a: "append_read ?seg (fst (check_rd_trace_buf sz env r (dxt_mem_remaining ?s1))) = Inr r'"
          and s': "s' = put_mpiio rid r' (snd (check_rd_trace_buf sz env r (dxt_mem_remaining ?s1))) ?s1"
        by (auto simp: dxt_mpiio_read_def Let_def split: sum.splits)
      from found have l: "map_of (rec_id_hash rt) rid = Some r"
        by (simp add: darshan_lookup_record_ref_def)
      from mpiio_read_tail [OF sz inv1 Some l a] s' have "step_ok sz ?s1 s'" by simp
      with st1 show ?thesis by (rule step_ok_trans)
    next
      case None
      then have l: "map_of (rec_id_hash rt) rid = None"
        by (simp add: darshan_lookup_record_ref_def)
      from w False Some None obtain res s2 where
          t: "dxt_mpiio_track_new_file_record sz env rid ?s1 = Inr (res, s2)"
        by (auto simp: dxt_mpiio_read_def Let_def split: sum.splits)
      note tr = mpiio_track_step [OF sz inv1 Some l t]
      from st1 tr(1) have st2: "step_ok sz s s2" by (rule step_ok_trans)
      show ?thesis
      proof (cases res)
        case none: None
        with w False Some None t have "s' = s2"
          by (simp add: dxt_mpiio_read_def Let_def)
        with st2 show ?thesis by simp
      next
        case new: (Some r)
        with tr(2) obtain rt2 where rt2: "dxt_mpiio_runtime s2 = Some rt2"
            "map_of (rec_id_hash rt2) rid = Some r" by auto
        from w False Some None t new obtain r' where
            a: "append_read ?seg (fst (check_rd_trace_buf sz env r (dxt_mem_remaining s2))) = Inr r'"
            and s': "s' = put_mpiio rid r' (snd (check_rd_trace_buf sz env r (dxt_mem_remaining s2))) s2"
          by (auto simp: dxt_mpiio_read_def Let_def split: sum.splits)
        from tr(1) have inv2: "dxt_inv sz s2" by (simp add: step_ok_def)
        from mpiio_read_tail [OF sz inv2 rt2 a] s' have "step_ok sz s2 s'" by simp
        with st2 show ?thesis by (rule step_ok_trans)
      qed
    qed
  qed
qed

subsection \<open>DXT: the budget is never overdrawn\<close>

lemma dxt_posix_shutdown_step:
  assumes sz: "sizes_ok sz" and inv: "dxt_inv sz s" and w: "dxt_posix_shutdown s = Inr (out, s')"
  shows "step_ok sz s s'"
proof -
  from w obtain rt where rt: "dxt_posix_runtime s = Some rt"
      and s': "s' = s\<lparr>dxt_posix_runtime := None, instrumentation_disabled := True\<rparr>"
    by (auto simp: dxt_posix_shutdown_def split: option.splits)
  from inv refs_bytes_nonneg [OF sz, of "rec_id_hash rt"] have "dxt_inv sz s'"
    by (simp add: s' dxt_inv_def dxt_bytes_held_def runtime_refs_def rt refs_bytes_def refs_ok_def)
  then show ?thesis by (simp add: step_ok_def s')
qed

lemma dxt_mpiio_shutdown_step:
  assumes sz: "sizes_ok sz" and inv: "dxt_inv sz s" and w: "dxt_mpiio_shutdown s = Inr (out, s')"
  shows "step_ok sz s s'"
proof -
  from w obtain rt where rt: "dxt_mpiio_runtime s = Some rt"
      and s': "s' = s\<lparr>dxt_mpiio_runtime := None, instrumentation_disabled := True\<rparr>"
    by (auto simp: dxt_mpiio_shutdown_def split: option.splits)
  from inv refs_bytes_nonneg [OF sz, of "rec_id_hash rt"] have "dxt_inv sz s'"
    by (simp add: s' dxt_inv_def dxt_bytes_held_def runtime_refs_def rt refs_bytes_def refs_ok_def)
  then show ?thesis by (simp add: step_ok_def s')
qed

lemma dxt_step_ok:
  assumes sz: "sizes_ok sz" and inv: "dxt_inv sz s" and w: "dxt_step sz op s = Inr s'"
  shows "step_ok sz s s'"
proof (cases op)
  case (Posix_write env rid offset len t0 t1)
  with w show ?thesis using dxt_posix_write_step [OF sz inv] by simp
next
  case (Posix_read env rid offset len t0 t1)
  with w show ?thesis using dxt_posix_read_step [OF sz inv] by simp
next
  case (Mpiio_write env rid len t0 t1)
  with w show ?thesis using dxt_mpiio_write_step [OF sz inv] by simp
next
  case (Mpiio_read env rid len t0 t1)
  with w show ?thesis using dxt_mpiio_read_step [OF sz inv] by simp
next
  case Posix_shutdown
  with w obtain out where "dxt_posix_shutdown s = Inr (out, s')"
    by (cases "dxt_posix_shutdown s") auto
  from dxt_posix_shutdown_step [OF sz inv this] show ?thesis .
next
  case Mpiio_shutdown
  with w obtain out where "dxt_mpiio_shutdown s = Inr (out, s')"
    by (cases "dxt_mpiio_shutdown s") auto
  from dxt_mpiio_shutdown_step [OF sz inv this] show ?thesis .
qed

lemma dxt_run_ok:
  assumes sz: "sizes_ok sz"
  shows "dxt_inv sz s \<Longrightarrow> dxt_run sz ops s = Inr s' \<Longrightarrow> step_ok sz s s'"
proof (induction ops arbitrary: s)
  case Nil
  then show ?case by (simp add: step_ok_refl)
next
  case (Cons op ops)
  from Cons.prems(2) obtain s1 where s1: "dxt_step sz op s = Inr s1" "dxt_run sz ops s1 = Inr s'"
    by (auto split: sum.splits)
  from dxt_step_ok [OF sz Cons.prems(1) s1(1)] have st: "step_ok sz s s1" .
  then have "dxt_inv sz s1" by (simp add: step_ok_def)
  from Cons.IH [OF this s1(2)] st show ?case by (rule step_ok_trans [rotated])
qed

lemma dxt_init_inv: "dxt_inv sz dxt_init"
  by (simp add: dxt_inv_def dxt_init_def dxt_bytes_held_def runtime_refs_def refs_bytes_def
      refs_ok_def DXT_IO_TRACE_MEM_MAX_def)

text \<open>
  C5. In every state that a sequence of trace calls and shutdowns reaches from the
  initial state, \<^verbatim>\<open>dxt_mem_remaining\<close> is not negative, the bytes charged against the
  budget are at most 4 MiB, and the bytes held by the file records and the trace
  buffers of both runtimes are at most the bytes charged.
\<close>

theorem dxt_budget_never_overdrawn:
  assumes "sizes_ok sz" and "dxt_run sz ops dxt_init = Inr s"
  shows "0 \<le> dxt_mem_remaining s
       \<and> dxt_bytes_charged s \<le> 4 * 1024 * 1024
       \<and> 0 \<le> dxt_bytes_charged s
       \<and> dxt_bytes_held sz s \<le> dxt_bytes_charged s
       \<and> dxt_bytes_held sz s \<le> 4 * 1024 * 1024"
proof -
  from dxt_run_ok [OF assms(1) dxt_init_inv assms(2)] have "dxt_inv sz s"
    by (simp add: step_ok_def)
  with inv_remaining_le [OF assms(1) this] show ?thesis
    by (simp add: dxt_inv_def dxt_bytes_charged_def DXT_IO_TRACE_MEM_MAX_def)
qed

text \<open>
  Witness of C5: with segments of 32 bytes and file records of 120 bytes, a POSIX write
  and an MPI-IO read on fresh files charge two records and two buffers of 64 segments.
\<close>

theorem dxt_budget_never_overdrawn_witness:
  "sizes_ok \<lparr>sizeof_segment_info = 32, sizeof_dxt_file_record = 120\<rparr>
   \<and> (\<exists>s. dxt_run \<lparr>sizeof_segment_info = 32, sizeof_dxt_file_record = 120\<rparr>
          [Posix_write \<lparr>register_ok = True, core_rank = 0, ref_malloc_ok = True,
               rec_malloc_ok = True, add_ref_ok = True, realloc_ok = True\<rparr> 7 0 4096 0 1,
           Mpiio_read \<lparr>register_ok = True, core_rank = 0, ref_malloc_ok = True,
               rec_malloc_ok = True, add_ref_ok = True, realloc_ok = True\<rparr> 9 10 0 1]
          dxt_init = Inr s
        \<and> dxt_mem_remaining s = 4189968
        \<and> dxt_bytes_charged s = 4336
        \<and> dxt_bytes_held \<lparr>sizeof_segment_info = 32, sizeof_dxt_file_record = 120\<rparr> s = 4336
        \<and> dxt_bytes_held \<lparr>sizeof_segment_info = 32, sizeof_dxt_file_record = 120\<rparr> s
            \<le> dxt_bytes_charged s)"
proof -
  let ?sz = "\<lparr>sizeof_segment_info = 32, sizeof_dxt_file_record = 120\<rparr>"
  let ?env = "\<lparr>register_ok = True, core_rank = 0, ref_malloc_ok = True,
               rec_malloc_ok = True, add_ref_ok = True, realloc_ok = True\<rparr>"
  have ok: "sizes_ok ?sz" by (simp add: sizes_ok_def)
  have "\<exists>s. dxt_run ?sz [Posix_write ?env 7 0 4096 0 1, Mpiio_read ?env 9 10 0 1] dxt_init = Inr s
      \<and> dxt_mem_remaining s = 4189968
      \<and> dxt_bytes_held ?sz s = 4336"
    by (simp add: dxt_posix_write_def dxt_mpiio_read_def dxt_init_def Let_def
        dxt_posix_runtime_initialize_def dxt_mpiio_runtime_initialize_def
        darshan_lookup_record_ref_def dxt_posix_track_new_file_record_def
        dxt_mpiio_track_new_file_record_def new_ref_def check_wr_trace_buf_def
        check_rd_trace_buf_def size_t_of_def int_of_def IO_TRACE_BUF_SIZE_def
        DXT_IO_TRACE_MEM_MAX_def realloc_traces_def append_write_def append_read_def
        put_posix_def put_mpiio_def dxt_bytes_held_def runtime_refs_def refs_bytes_def
        ref_bytes_def buf_len_def)
  then obtain s where s:
      "dxt_run ?sz [Posix_write ?env 7 0 4096 0 1, Mpiio_read ?env 9 10 0 1] dxt_init = Inr s"
      "dxt_mem_remaining s = 4189968" "dxt_bytes_held ?sz s = 4336"
    by blast
  from dxt_budget_never_overdrawn [OF ok s(1)] s ok show ?thesis
    by (intro conjI exI [of _ s]) (simp_all add: dxt_bytes_charged_def DXT_IO_TRACE_MEM_MAX_def)
qed

subsection \<open>DXT: segments dropped once the budget is exhausted\<close>

lemma granted_inc_zero_iff:
  assumes "0 < sizeof_segment_info sz" and "0 \<le> avail" and "0 \<le> remaining"
  shows "granted_inc sz avail remaining = 0 \<longleftrightarrow> remaining < sizeof_segment_info sz"
proof
  assume z: "granted_inc sz avail remaining = 0"
  have pos: "0 < (if avail = 0 then IO_TRACE_BUF_SIZE else avail)"
    using assms(2) by (simp add: IO_TRACE_BUF_SIZE_def)
  with z have d: "remaining div sizeof_segment_info sz = 0"
    by (auto simp: granted_inc_def split: if_splits)
  have "remaining div sizeof_segment_info sz * sizeof_segment_info sz +
      remaining mod sizeof_segment_info sz = remaining"
    by simp
  with d have "remaining mod sizeof_segment_info sz = remaining" by simp
  moreover have "remaining mod sizeof_segment_info sz < sizeof_segment_info sz"
    using assms(1) by simp
  ultimately show "remaining < sizeof_segment_info sz" by simp
next
  assume "remaining < sizeof_segment_info sz"
  from granted_inc_zero [OF assms this] show "granted_inc sz avail remaining = 0" .
qed

lemma frozen_step:
  assumes st: "step_ok sz s s'" and f: "frozen sz m d rid s"
  shows "frozen sz m d rid s'"
proof -
  from f have lt: "dxt_mem_remaining s < sizeof_segment_info sz" by (simp add: frozen_def)
  with st have lt': "dxt_mem_remaining s' < sizeof_segment_info sz" by (simp add: step_ok_def)
  show ?thesis
  proof (cases "instrumentation_disabled s'")
    case True
    with lt' show ?thesis by (simp add: frozen_def)
  next
    case False
    with st have nd: "\<not> instrumentation_disabled s" by (auto simp: step_ok_def)
    with f obtain r where r: "map_of (runtime_refs (runtime_of m s)) rid = Some r"
        "count_of d r = avail_of d r"
      by (auto simp: frozen_def)
    from st False have "refs_keep sz (dxt_mem_remaining s)
        (runtime_refs (runtime_of m s)) (runtime_refs (runtime_of m s'))"
      by (cases m) (simp_all add: step_ok_def)
    with r(1) obtain r' where r': "map_of (runtime_refs (runtime_of m s')) rid = Some r'"
        "keeps_full sz (dxt_mem_remaining s) r r'"
      by (auto simp: refs_keep_def)
    from r'(2) r(2) lt have "count_of d r' = avail_of d r'"
      by (cases d) (simp_all add: keeps_full_def)
    with r'(1) lt' show ?thesis by (auto simp: frozen_def)
  qed
qed

lemma put_posix_same:
  "dxt_posix_runtime s = Some rt \<Longrightarrow> map_of (rec_id_hash rt) rid = Some r \<Longrightarrow>
     put_posix rid r (dxt_mem_remaining s) s = s"
  by (simp add: put_posix_def ref_store_same)

lemma put_mpiio_same:
  "dxt_mpiio_runtime s = Some rt \<Longrightarrow> map_of (rec_id_hash rt) rid = Some r \<Longrightarrow>
     put_mpiio rid r (dxt_mem_remaining s) s = s"
  by (simp add: put_mpiio_def ref_store_same)

text \<open>The facts about a frozen record that the four trace functions share.\<close>

lemma frozen_ref_facts:
  assumes sz: "sizes_ok sz" and inv: "dxt_inv sz s"
    and l: "map_of (runtime_refs (runtime_of m s)) rid = Some r"
    and lt: "dxt_mem_remaining s < sizeof_segment_info sz"
  shows "check_wr_trace_buf sz env r (dxt_mem_remaining s) = (r, dxt_mem_remaining s)"
    and "check_rd_trace_buf sz env r (dxt_mem_remaining s) = (r, dxt_mem_remaining s)"
proof -
  from inv have oks: "refs_ok (runtime_refs (runtime_of m s))"
    by (cases m) (simp_all add: dxt_inv_def)
  from refs_ok_lookup [OF oks l] have ok: "ref_ok r" .
  from inv have r0: "0 \<le> dxt_mem_remaining s" by (simp add: dxt_inv_def)
  have "ref_bytes sz r \<le> dxt_bytes_held sz s"
    using ref_bytes_le_refs_bytes [OF sz l]
      refs_bytes_nonneg [OF sz, of "runtime_refs (dxt_posix_runtime s)"]
      refs_bytes_nonneg [OF sz, of "runtime_refs (dxt_mpiio_runtime s)"]
    by (cases m) (simp_all add: dxt_bytes_held_def)
  with inv have b: "ref_bytes sz r + dxt_mem_remaining s \<le> DXT_IO_TRACE_MEM_MAX"
    by (simp add: dxt_inv_def)
  note rg = ref_ranges [OF sz ok r0 b]
  have seg: "0 < sizeof_segment_info sz" using sz by (simp add: sizes_ok_def)
  have "granted_inc sz (write_available_buf r) (dxt_mem_remaining s) = 0"
    by (rule granted_inc_zero [OF seg rg(1) r0 lt])
  then show "check_wr_trace_buf sz env r (dxt_mem_remaining s) = (r, dxt_mem_remaining s)"
    by (simp add: check_wr_trace_buf_exact [OF sz ok r0 b])
  have "granted_inc sz (read_available_buf r) (dxt_mem_remaining s) = 0"
    by (rule granted_inc_zero [OF seg rg(3) r0 lt])
  then show "check_rd_trace_buf sz env r (dxt_mem_remaining s) = (r, dxt_mem_remaining s)"
    by (simp add: check_rd_trace_buf_exact [OF sz ok r0 b])
qed

lemma frozen_call_drops:
  assumes sz: "sizes_ok sz" and inv: "dxt_inv sz s" and f: "frozen sz m d rid s"
  shows "dxt_step sz (trace_call m d env rid offset len t0 t1) s = Inr s"
proof (cases "instrumentation_disabled s")
  case True
  then show ?thesis
    by (cases m; cases d)
      (simp_all add: dxt_posix_write_def dxt_posix_read_def dxt_mpiio_write_def dxt_mpiio_read_def)
next
  case False
  with f obtain r where r: "map_of (runtime_refs (runtime_of m s)) rid = Some r"
      "count_of d r = avail_of d r" and lt: "dxt_mem_remaining s < sizeof_segment_info sz"
    by (auto simp: frozen_def)
  note ch = frozen_ref_facts [OF sz inv r(1) lt, of env]
  from r(1) obtain rt where rt: "runtime_of m s = Some rt" "map_of (rec_id_hash rt) rid = Some r"
    by (cases "runtime_of m s") (simp_all add: runtime_refs_def)
  show ?thesis
  proof (cases m)
    case MOD_POSIX
    with rt have p: "dxt_posix_runtime s = Some rt" by simp
    show ?thesis
    proof (cases d)
      case DIR_WRITE
      with r(2) have "append_write \<lparr>seg_offset = Some offset, seg_length = len,
          seg_start_time = t0, seg_end_time = t1\<rparr> r = Inr r"
        by (simp add: append_write_def)
      with MOD_POSIX DIR_WRITE False p rt(2) ch show ?thesis
        by (simp add: dxt_posix_write_def darshan_lookup_record_ref_def put_posix_same)
    next
      case DIR_READ
      with r(2) have "append_read \<lparr>seg_offset = Some offset, seg_length = len,
          seg_start_time = t0, seg_end_time = t1\<rparr> r = Inr r"
        by (simp add: append_read_def)
      with MOD_POSIX DIR_READ False p rt(2) ch show ?thesis
        by (simp add: dxt_posix_read_def darshan_lookup_record_ref_def put_posix_same)
    qed
  next
    case MOD_MPIIO
    with rt have p: "dxt_mpiio_runtime s = Some rt" by simp
    show ?thesis
    proof (cases d)
      case DIR_WRITE
      with r(2) have "append_write \<lparr>seg_offset = None, seg_length = len,
          seg_start_time = t0, seg_end_time = t1\<rparr> r = Inr r"
        by (simp add: append_write_def)
      with MOD_MPIIO DIR_WRITE False p rt(2) ch show ?thesis
        by (simp add: dxt_mpiio_write_def darshan_lookup_record_ref_def put_mpiio_same)
    next
      case DIR_READ
      with r(2) have "append_read \<lparr>seg_offset = None, seg_length = len,
          seg_start_time = t0, seg_end_time = t1\<rparr> r = Inr r"
        by (simp add: append_read_def)
      with MOD_MPIIO DIR_READ False p rt(2) ch show ?thesis
        by (simp add: dxt_mpiio_read_def darshan_lookup_record_ref_def put_mpiio_same)
    qed
  qed
qed

text \<open>
  C6. In a state reached by the runtime, take a record of a module whose growth
  request for a direction is clamped to a zero increment: its count has reached its
  buffer size and the increment granted from the remaining budget is zero. After any
  further calls, every trace call of that module and direction on that record returns
  normally and leaves the whole state as it was: nothing is appended, the count does
  not move, and no fault is raised.
\<close>

theorem dxt_drops_after_zero_clamp:
  assumes "sizes_ok sz"
    and "dxt_run sz before dxt_init = Inr s"
    and "map_of (runtime_refs (runtime_of m s)) rid = Some r"
    and "count_of d r \<ge> avail_of d r"
    and "granted_inc sz (avail_of d r) (dxt_mem_remaining s) = 0"
    and "dxt_run sz later s = Inr s'"
  shows "dxt_step sz (trace_call m d env rid offset len t0 t1) s' = Inr s'"
proof -
  from dxt_run_ok [OF assms(1) dxt_init_inv assms(2)] have inv: "dxt_inv sz s"
    by (simp add: step_ok_def)
  then have oks: "refs_ok (runtime_refs (runtime_of m s))"
    by (cases m) (simp_all add: dxt_inv_def)
  from refs_ok_lookup [OF oks assms(3)] have ok: "ref_ok r" .
  then have a0: "0 \<le> avail_of d r" and le: "count_of d r \<le> avail_of d r"
    using buf_len_nonneg [of "write_traces (file_rec r)"] buf_len_nonneg [of "read_traces (file_rec r)"]
    by (cases d; simp add: ref_ok_def)+
  from inv have r0: "0 \<le> dxt_mem_remaining s" by (simp add: dxt_inv_def)
  have seg: "0 < sizeof_segment_info sz" using assms(1) by (simp add: sizes_ok_def)
  from granted_inc_zero_iff [OF seg a0 r0] assms(5)
  have lt: "dxt_mem_remaining s < sizeof_segment_info sz" by simp
  from le assms(4) have "count_of d r = avail_of d r" by simp
  with assms(3) lt have f: "frozen sz m d rid s" by (auto simp: frozen_def)
  from dxt_run_ok [OF assms(1) inv assms(6)] have st: "step_ok sz s s'" .
  then have inv': "dxt_inv sz s'" by (simp add: step_ok_def)
  from frozen_step [OF st f] have "frozen sz m d rid s'" .
  from frozen_call_drops [OF assms(1) inv' this] show ?thesis .
qed

text \<open>
  Witness of C6: with segments and file records of 1 MiB each, the first write on a
  file charges the record and a buffer of 3 segments (the 64 asked for, clamped), and
  the budget is exhausted. After three writes the buffer is full and the next growth
  request is clamped to zero. A read on the same file and an MPI-IO write on another
  one follow; a further POSIX write on the file then leaves the state as it is.
\<close>

theorem dxt_drops_after_zero_clamp_witness:
  "sizes_ok \<lparr>sizeof_segment_info = 1048576, sizeof_dxt_file_record = 1048576\<rparr>
   \<and> (\<exists>s r s'.
        dxt_run \<lparr>sizeof_segment_info = 1048576, sizeof_dxt_file_record = 1048576\<rparr>
          [Posix_write \<lparr>register_ok = True, core_rank = 0, ref_malloc_ok = True,
               rec_malloc_ok = True, add_ref_ok = True, realloc_ok = True\<rparr> 7 0 10 0 1,
           Posix_write \<lparr>register_ok = True, core_rank = 0, ref_malloc_ok = True,
               rec_malloc_ok = True, add_ref_ok = True, realloc_ok = True\<rparr> 7 10 10 1 2,
           Posix_write \<lparr>register_ok = True, core_rank = 0, ref_malloc_ok = True,
               rec_malloc_ok = True, add_ref_ok = True, realloc_ok = True\<rparr> 7 20 10 2 3]
          dxt_init = Inr s
      \<and> map_of (runtime_refs (runtime_of MOD_POSIX s)) 7 = Some r
      \<and> count_of DIR_WRITE r = 3 \<and> avail_of DIR_WRITE r = 3
      \<and> dxt_mem_remaining s = 0
      \<and> granted_inc \<lparr>sizeof_segment_info = 1048576, sizeof_dxt_file_record = 1048576\<rparr>
           (avail_of DIR_WRITE r) (dxt_mem_remaining s) = 0
      \<and> dxt_run \<lparr>sizeof_segment_info = 1048576, sizeof_dxt_file_record = 1048576\<rparr>
          [Posix_read \<lparr>register_ok = True, core_rank = 0, ref_malloc_ok = True,
               rec_malloc_ok = True, add_ref_ok = True, realloc_ok = True\<rparr> 7 0 10 3 4,
           Mpiio_write \<lparr>register_ok = True, core_rank = 0, ref_malloc_ok = True,
               rec_malloc_ok = True, add_ref_ok = True, realloc_ok = True\<rparr> 9 10 4 5]
          s = Inr s'
      \<and> dxt_step \<lparr>sizeof_segment_info = 1048576, sizeof_dxt_file_record = 1048576\<rparr>
          (Posix_write \<lparr>register_ok = True, core_rank = 0, ref_malloc_ok = True,
               rec_malloc_ok = True, add_ref_ok = True, realloc_ok = True\<rparr> 7 30 10 5 6) s' = Inr s')"
proof -
  let ?sz = "\<lparr>sizeof_segment_info = 1048576, sizeof_dxt_file_record = 1048576\<rparr>"
  let ?env = "\<lparr>register_ok = True, core_rank = 0, ref_malloc_ok = True,
               rec_malloc_ok = True, add_ref_ok = True, realloc_ok = True\<rparr>"
  let ?before = "[Posix_write ?env 7 0 10 0 1, Posix_write ?env 7 10 10 1 2,
                  Posix_write ?env 7 20 10 2 3]"
  let ?later = "[Posix_read ?env 7 0 10 3 4, Mpiio_write ?env 9 10 4 5]"
  note defs = dxt_posix_write_def dxt_posix_read_def dxt_mpiio_write_def dxt_init_def Let_def
        dxt_posix_runtime_initialize_def dxt_mpiio_runtime_initialize_def
        darshan_lookup_record_ref_def dxt_posix_track_new_file_record_def
        dxt_mpiio_track_new_file_record_def new_ref_def check_wr_trace_buf_def
        check_rd_trace_buf_def size_t_of_def int_of_def IO_TRACE_BUF_SIZE_def
        DXT_IO_TRACE_MEM_MAX_def realloc_traces_def append_write_def append_read_def
        put_posix_def put_mpiio_def runtime_refs_def
  have ok: "sizes_ok ?sz" by (simp add: sizes_ok_def)
  have "\<exists>s. dxt_run ?sz ?before dxt_init = Inr s
      \<and> (\<exists>r. map_of (runtime_refs (dxt_posix_runtime s)) 7 = Some r
            \<and> write_count (file_rec r) = 3 \<and> write_available_buf r = 3)
      \<and> dxt_mem_remaining s = 0
      \<and> (\<exists>s'. dxt_run ?sz ?later s = Inr s')"
    by (simp add: defs)
  then obtain s r s' where s: "dxt_run ?sz ?before dxt_init = Inr s"
      and r: "map_of (runtime_refs (runtime_of MOD_POSIX s)) 7 = Some r"
        "count_of DIR_WRITE r = 3" "avail_of DIR_WRITE r = 3"
      and z: "dxt_mem_remaining s = 0"
      and s': "dxt_run ?sz ?later s = Inr s'"
    by auto
  have g: "granted_inc ?sz (avail_of DIR_WRITE r) (dxt_mem_remaining s) = 0"
    using r z by (simp add: granted_inc_def)
  from r have c: "avail_of DIR_WRITE r \<le> count_of DIR_WRITE r" by simp
  from dxt_drops_after_zero_clamp [OF ok s r(1) c g s', of ?env 30 10 5 6]
  have "dxt_step ?sz (Posix_write ?env 7 30 10 5 6) s' = Inr s'" by simp
  with ok s r z g s' show ?thesis by blast
qed

end
